(* ===== verification/Mlx_Prelude.thy ===== *)
theory Mlx_Prelude
  imports Main "HOL-Library.Word"
begin

text \<open>
  Shared vocabulary of the development: the machine integer types of the
  program (LP64: \<open>uintptr_t\<close>, \<open>size_t\<close> and \<open>unw_word_t\<close> are 64 bits wide,
  \<open>int\<close> is 32 bits wide), the conversions that C performs between them, the
  collections of rewrite rules of the component theories, and the list and
  word facts that several components need.
\<close>

unbundle bit_operations_syntax

named_theorems heap_simps \<open>closed forms of the pointer updates of list.h and hash.h\<close>
named_theorems trk_simps \<open>frame facts of the tracker's operations\<close>
named_theorems tgt_simps \<open>reads of the target's memory after writes\<close>

type_synonym u8 = "8 word"
type_synonym u32 = "32 word"
type_synonym u64 = "64 word"
type_synonym cint = "32 word"
type_synonym pid = int

section \<open>C conversions\<close>

text \<open>
  A value of C type \<open>int\<close> is a 32-bit word read by \<open>sint\<close>. Storing a wider
  value (a \<open>time_t\<close> or a \<open>size_t\<close>) keeps the low 32 bits, as gcc does.
\<close>

definition int_of_long :: "int \<Rightarrow> cint" where
  "int_of_long x = word_of_int x"

definition int_of_size :: "u64 \<Rightarrow> cint" where
  "int_of_size x = ucast x"

lemma sint_int_of_long:
  "- (2 ^ 31) \<le> x \<Longrightarrow> x < 2 ^ 31 \<Longrightarrow> sint (int_of_long x) = x"
  by (simp add: int_of_long_def sint_sbintrunc' signed_take_bit_int_eq_self)

lemma int_of_long_0 [simp]: "int_of_long 0 = 0"
  by (simp add: int_of_long_def)

lemma int_of_size_0 [simp]: "int_of_size 0 = 0"
  by (simp add: int_of_size_def)

lemma unat_add_of_nat:
  fixes a :: u64
  assumes "unat a + n < 2 ^ 64"
  shows "unat (a + of_nat n) = unat a + n"
  using assms by (simp add: unat_word_ariths unat_of_nat take_bit_eq_mod)

section \<open>Outcomes\<close>

text \<open>
  A C function either returns, ends the process with \<open>exit\<close>, performs an access
  outside its objects (a NULL dereference or a write past a buffer), or loops forever.
\<close>

datatype fault = NullDeref | BufferOverflow

datatype 'a run = Return 'a | Exit int | Crash fault | Diverge

fun run_bind :: "'a run \<Rightarrow> ('a \<Rightarrow> 'b run) \<Rightarrow> 'b run" where
  "run_bind (Return x) f = f x"
| "run_bind (Exit c) f = Exit c"
| "run_bind (Crash e) f = Crash e"
| "run_bind Diverge f = Diverge"

fun run_of_option :: "'a option \<Rightarrow> 'a run" where
  "run_of_option None = Diverge"
| "run_of_option (Some x) = Return x"

lemma run_bind_Return: "run_bind r f = Return y \<longleftrightarrow> (\<exists>x. r = Return x \<and> f x = Return y)"
  by (cases r) auto

lemma run_bind_assoc: "run_bind (run_bind r f) g = run_bind r (\<lambda>x. run_bind (f x) g)"
  by (cases r) auto

lemma run_bind_cong [fundef_cong]:
  "r = r' \<Longrightarrow> (\<And>x. r' = Return x \<Longrightarrow> f x = g x) \<Longrightarrow> run_bind r f = run_bind r' g"
  by (cases r') auto

lemma run_bind_Return_right [simp]: "run_bind r Return = r"
  by (cases r) auto

text \<open>A loop over a list whose body may end the process.\<close>

fun run_fold :: "('x \<Rightarrow> 'a \<Rightarrow> 'a run) \<Rightarrow> 'x list \<Rightarrow> 'a \<Rightarrow> 'a run" where
  "run_fold f [] a = Return a"
| "run_fold f (x # xs) a = run_bind (f x a) (run_fold f xs)"

lemma run_fold_inv:
  assumes "run_fold f xs a = Return b" and "P a"
    and "\<And>x a b. x \<in> set xs \<Longrightarrow> P a \<Longrightarrow> f x a = Return b \<Longrightarrow> P b"
  shows "P b"
  using assms
proof (induction xs arbitrary: a)
  case (Cons x xs)
  then obtain c where c: "f x a = Return c" "run_fold f xs c = Return b" by (auto simp: run_bind_Return)
  then have "P c" using Cons.prems by auto
  then show ?case using Cons.IH [OF c(2)] Cons.prems(3) by auto
qed simp

section \<open>C strings\<close>

text \<open>
  \<open>strrchr\<close> and \<open>strstr\<close> as the index of the match; a C string is the list of its
  characters before the terminating NUL.
\<close>

fun strchr_last :: "string \<Rightarrow> char \<Rightarrow> nat option" where
  "strchr_last [] c = None"
| "strchr_last (x # xs) c =
     (case strchr_last xs c of Some i \<Rightarrow> Some (Suc i)
      | None \<Rightarrow> if x = c then Some 0 else None)"

fun strstr :: "string \<Rightarrow> string \<Rightarrow> nat option" where
  "strstr [] needle = (if needle = [] then Some 0 else None)"
| "strstr (x # xs) needle =
     (if take (length needle) (x # xs) = needle then Some 0
      else map_option Suc (strstr xs needle))"

lemma strchr_last_Some: "strchr_last s c = Some i \<Longrightarrow>
   i < length s \<and> s ! i = c \<and> c \<notin> set (drop (Suc i) s)"
proof (induction s arbitrary: i)
  case (Cons x xs)
  have none: "strchr_last ys c = None \<Longrightarrow> c \<notin> set ys" for ys
    by (induction ys) (auto split: option.splits if_splits)
  show ?case
    using Cons none [of xs] by (auto split: option.splits if_splits)
qed simp

lemma strstr_Some: "strstr s p = Some i \<Longrightarrow> take (length p) (drop i s) = p \<and> i \<le> length s"
  by (induction s p arbitrary: i rule: strstr.induct) (auto split: if_splits)

section \<open>Lists\<close>

text \<open>A relation between neighbours survives a change away from them.\<close>

lemma successively_weaken:
  assumes "successively P xs"
    and "\<And>x y. x \<in> set (butlast xs) \<Longrightarrow> y \<in> set (tl xs) \<Longrightarrow> P x y \<Longrightarrow> Q x y"
  shows "successively Q xs"
  using assms
proof (induction xs)
  case Nil
  then show ?case by simp
next
  case (Cons a xs)
  then show ?case
    by (cases xs) auto
qed

lemma map_split_at:
  "map f ns = as @ x # bs \<Longrightarrow> \<exists>xs n ys. ns = xs @ n # ys \<and> map f xs = as \<and> f n = x \<and> map f ys = bs"
  by (fastforce simp: map_eq_append_conv map_eq_Cons_conv append_eq_map_conv Cons_eq_map_conv)

lemma distinct_last_butlast: "distinct xs \<Longrightarrow> xs \<noteq> [] \<Longrightarrow> last xs \<notin> set (butlast xs)"
  by (induction xs) (auto split: if_splits dest: in_set_butlastD)

lemma find_filter_slot:
  "(\<And>x. x \<in> set xs \<Longrightarrow> P x \<Longrightarrow> Q x) \<Longrightarrow> find P (filter Q xs) = find P xs"
  by (induction xs) auto

lemma find_conj_filter: "find P (filter Q xs) = find (\<lambda>x. Q x \<and> P x) xs"
  by (induction xs) auto

lemma find_cong_set: "(\<And>x. x \<in> set xs \<Longrightarrow> P x = Q x) \<Longrightarrow> find P xs = find Q xs"
  by (induction xs) auto

lemma find_Some_set: "find P xs = Some x \<Longrightarrow> x \<in> set xs \<and> P x"
  by (auto simp: find_Some_iff)

lemma distinct_removeAll_split:
  "distinct (xs @ n # ys) \<Longrightarrow> removeAll n (xs @ n # ys) = xs @ ys"
  by (simp add: removeAll_id)

lemma filter_removeAll: "filter P (removeAll n xs) = removeAll n (filter P xs)"
  by (induction xs) auto

lemma length_filter_remove1:
  "n \<in> set xs \<Longrightarrow> P n \<Longrightarrow> length (filter P xs) = Suc (length (filter P (remove1 n xs)))"
  by (induction xs) auto

lemma sum_list_filter_remove1:
  fixes f :: "'a \<Rightarrow> 'b::ab_group_add"
  assumes "n \<in> set xs" and "P n"
  shows "sum_list (map f (filter P (remove1 n xs))) = sum_list (map f (filter P xs)) - f n"
  using assms by (induction xs) (auto simp: algebra_simps)

lemma removeAll_distinct_remove1: "distinct xs \<Longrightarrow> removeAll n xs = remove1 n xs"
  by (simp add: distinct_remove1_removeAll)

lemma find_removeAll: "\<not> P k \<Longrightarrow> find P (removeAll k xs) = find P xs"
  by (induction xs) auto

end
