(* ===== verification/Target_Memory.thy ===== *)
theory Target_Memory
  imports Mlx_Prelude
begin

text \<open>
  The target process as \<open>src/ptrace_utils.h\<close> (Linux part) sees it: address spaces of
  bytes, the space each thread runs in, its registers, whether the thread is stopped for its
  tracer (\<open>tstop\<close>), and the requests issued to the kernel. \<open>PTRACE_PEEKTEXT\<close> and
  \<open>PTRACE_POKETEXT\<close> transfer one machine word, little endian, on mapped memory; the width is
  the type parameter \<open>'w\<close>. \<open>tevent\<close> is the event message of a thread (the id of a new child).

  Except for \<open>PTRACE_ATTACH\<close>, a request on a thread that is not stopped fails (ESRCH): it changes
  nothing, a word that is read is -1, and a buffer for registers keeps its old contents, \<open>buf\<close>.
  The program does not look at these results. \<open>tlog\<close> has every request that was issued.
\<close>

datatype request = Continue pid int | Detach pid int | TraceChild pid | Attach pid | Kill pid int

record ('a, 'r) target =
  tspace :: "pid \<Rightarrow> nat"
  tmem :: "nat \<Rightarrow> 'a \<Rightarrow> u8"
  tregs :: "pid \<Rightarrow> 'r"
  tevent :: "pid \<Rightarrow> 'a"
  tstop :: "pid \<Rightarrow> bool"
  tlog :: "request list"

section \<open>Words in memory\<close>

fun le_word :: "u8 list \<Rightarrow> 'w::len word" where
  "le_word [] = 0"
| "le_word (b # bs) = ucast b OR push_bit 8 (le_word bs)"

definition word_bytes :: "'w::len itself \<Rightarrow> nat" where
  "word_bytes _ = LENGTH('w) div 8"

definition peek :: "('w::len word \<Rightarrow> u8) \<Rightarrow> 'w word \<Rightarrow> 'w word" where
  "peek m a = le_word (map (\<lambda>i. m (a + of_nat i)) [0..<word_bytes TYPE('w)])"

definition poke :: "('w::len word \<Rightarrow> u8) \<Rightarrow> 'w word \<Rightarrow> 'w word \<Rightarrow> 'w word \<Rightarrow> u8" where
  "poke m a d = (\<lambda>x. if unat (x - a) < word_bytes TYPE('w) then ucast (drop_bit (8 * unat (x - a)) d) else m x)"

definition window :: "'w::len word \<Rightarrow> 'w word set" where
  "window a = {x. unat (x - a) < word_bytes TYPE('w)}"

section \<open>Requests\<close>

definition ptrace_get_regs :: "pid \<Rightarrow> 'r \<Rightarrow> ('a, 'r) target \<Rightarrow> 'r" where
  "ptrace_get_regs p buf t = (if tstop t p then tregs t p else buf)"

definition ptrace_set_regs :: "pid \<Rightarrow> 'r \<Rightarrow> ('a, 'r) target \<Rightarrow> ('a, 'r) target" where
  "ptrace_set_regs p r t = (if tstop t p then t\<lparr>tregs := (tregs t)(p := r)\<rparr> else t)"

definition ptrace_get_data :: "pid \<Rightarrow> 'w::len word \<Rightarrow> ('w word, 'r) target \<Rightarrow> 'w word" where
  "ptrace_get_data p address t = (if tstop t p then peek (tmem t (tspace t p)) address else -1)"

definition ptrace_set_data :: "pid \<Rightarrow> 'w::len word \<Rightarrow> 'w word \<Rightarrow> ('w word, 'r) target \<Rightarrow> ('w word, 'r) target" where
  "ptrace_set_data p address d t =
     (if tstop t p then t\<lparr>tmem := (tmem t)(tspace t p := poke (tmem t (tspace t p)) address d)\<rparr> else t)"

definition ptrace_get_child :: "pid \<Rightarrow> 'a \<Rightarrow> ('a, 'r) target \<Rightarrow> 'a" where
  "ptrace_get_child p buf t = (if tstop t p then tevent t p else buf)"

text \<open>The extra status bits that a stop for a new child carries.\<close>

definition ptrace_new_child :: "u32 \<Rightarrow> bool" where
  "ptrace_new_child status \<longleftrightarrow> signed_drop_bit 16 status \<noteq> 0"

definition ptrace_continue :: "pid \<Rightarrow> int \<Rightarrow> ('a, 'r) target \<Rightarrow> ('a, 'r) target" where
  "ptrace_continue p signum t = t\<lparr>tlog := tlog t @ [Continue p signum], tstop := (tstop t)(p := False)\<rparr>"

definition ptrace_attach :: "bool \<Rightarrow> pid \<Rightarrow> ('a, 'r) target \<Rightarrow> ('a, 'r) target run" where
  "ptrace_attach ok p t = (if ok then Return (t\<lparr>tlog := tlog t @ [Attach p]\<rparr>) else Exit 4)"

definition ptrace_trace_child :: "pid \<Rightarrow> ('a, 'r) target \<Rightarrow> ('a, 'r) target" where
  "ptrace_trace_child p t = t\<lparr>tlog := tlog t @ [TraceChild p]\<rparr>"

definition ptrace_detach :: "pid \<Rightarrow> int \<Rightarrow> ('a, 'r) target \<Rightarrow> ('a, 'r) target" where
  "ptrace_detach p signum t = t\<lparr>tlog := tlog t @ [Detach p signum], tstop := (tstop t)(p := False)\<rparr>"

text \<open>What a result of \<open>waitpid\<close> says of the thread: it is stopped, or it has ended.\<close>

definition waited :: "pid \<Rightarrow> bool \<Rightarrow> ('a, 'r) target \<Rightarrow> ('a, 'r) target" where
  "waited p stopped t = t\<lparr>tstop := (tstop t)(p := stopped)\<rparr>"

section \<open>Reading back what was written\<close>

lemma bit_le_word:
  "bit (le_word bs :: 'w::len word) k \<longleftrightarrow>
     k < LENGTH('w) \<and> k div 8 < length bs \<and> bit (bs ! (k div 8)) (k mod 8)"
proof (induction bs arbitrary: k)
  case (Cons b bs)
  show ?case
  proof (cases "k < 8")
    case True
    then show ?thesis by (auto simp: bit_simps)
  next
    case False
    then obtain j where j: "k = j + 8" by (metis add.commute le_Suc_ex not_less)
    have "\<not> bit b k" using False by (simp add: impossible_bit)
    moreover have "(j + 8) div 8 = Suc (j div 8)" "(j + 8) mod 8 = j mod 8" by simp_all
    ultimately show ?thesis using j Cons [of j] by (auto simp: bit_simps)
  qed
qed simp

lemma word_bytes_64 [simp]: "word_bytes TYPE(64) = 8"
  and word_bytes_32 [simp]: "word_bytes TYPE(32) = 4"
  by (simp_all add: word_bytes_def)

lemma word_bytes_less: "word_bytes TYPE('w::len) < 2 ^ LENGTH('w)"
proof -
  have "LENGTH('w) div 8 \<le> LENGTH('w)" by simp
  also have "\<dots> < 2 ^ LENGTH('w)" by (rule less_exp)
  finally show ?thesis by (simp add: word_bytes_def)
qed

lemma unat_offset: "i < word_bytes TYPE('w::len) \<Longrightarrow> unat ((a + of_nat i) - a :: 'w word) = i"
  using word_bytes_less [where 'w = 'w] by (simp add: unat_of_nat take_bit_nat_eq_self)

lemma window_self [simp]: "0 < word_bytes TYPE('w::len) \<Longrightarrow> a \<in> window (a :: 'w word)"
  by (simp add: window_def)

lemma window_64_self [simp]: "a \<in> window (a :: u64)"
  by (simp add: window_def)

lemma byte_peek:
  fixes m :: "'w::len word \<Rightarrow> u8"
  assumes "i < word_bytes TYPE('w)"
  shows "(ucast (drop_bit (8 * i) (peek m a)) :: u8) = m (a + of_nat i)"
proof (rule bit_word_eqI)
  fix n assume n: "n < LENGTH(8)"
  then have d: "(8 * i + n) div 8 = i" "(8 * i + n) mod 8 = n" by simp_all
  have "8 * i + n < LENGTH('w)"
    using assms n by (auto simp: word_bytes_def)
  with n d assms show "bit (ucast (drop_bit (8 * i) (peek m a)) :: u8) n = bit (m (a + of_nat i)) n"
    by (simp add: bit_simps peek_def bit_le_word)
qed

lemma poke_inside: "x \<in> window a \<Longrightarrow> poke m a d x = ucast (drop_bit (8 * unat (x - a)) d)"
  by (simp add: poke_def window_def)

lemma poke_outside: "x \<notin> window a \<Longrightarrow> poke m a d x = m x"
  by (simp add: poke_def window_def)

lemma poke_peek_inside: "x \<in> window a \<Longrightarrow> poke m a (peek m' a) x = m' x"
  by (simp add: poke_inside byte_peek window_def)

text \<open>Writing a word that was read from memory with the same bytes restores them.\<close>

lemma poke_peek: "poke m a (peek m' a) = (\<lambda>x. if x \<in> window a then m' x else m x)"
  by (auto simp: poke_peek_inside poke_outside)

lemma peek_cong: "(\<And>x. x \<in> window a \<Longrightarrow> m x = m' x) \<Longrightarrow> peek m a = peek m' a"
  unfolding peek_def
  by (intro arg_cong [of _ _ le_word] map_cong) (use unat_offset in \<open>force simp: window_def\<close>)+

lemma peek_poke:
  fixes d :: "'w::len word"
  assumes "8 dvd LENGTH('w)"
  shows "peek (poke m a d) a = d"
proof (rule bit_word_eqI)
  fix n assume n: "n < LENGTH('w)"
  then have i: "n div 8 < word_bytes TYPE('w)"
    using assms by (auto simp: word_bytes_def elim!: dvdE intro: less_mult_imp_div_less)
  have "unat ((a + of_nat (n div 8)) - a :: 'w word) = n div 8" using unat_offset [OF i] .
  moreover have "8 * (n div 8) + n mod 8 = n" by simp
  ultimately show "bit (peek (poke m a d) a) n = bit d n"
    using i n by (simp add: peek_def bit_le_word poke_def bit_simps)
qed

text \<open>Words at least a word's length apart, both ways around, do not overlap.\<close>

lemma unat_diff_le:
  fixes x y :: "'w::len word"
  assumes "unat y \<le> unat x"
  shows "unat (x - y) \<le> unat x"
  using assms by (simp add: unat_sub word_le_nat_alt)

lemma window_disjoint:
  fixes a b :: "'w::len word"
  assumes "word_bytes TYPE('w) \<le> unat (a - b)" "word_bytes TYPE('w) \<le> unat (b - a)"
  shows "window a \<inter> window b = {}"
proof -
  have "False" if "unat (x - a) < word_bytes TYPE('w)" "unat (x - b) < word_bytes TYPE('w)" for x
  proof (cases "unat (x - a) \<le> unat (x - b)")
    case True
    from unat_diff_le [OF this] that assms show False by simp
  next
    case False
    then have "unat (x - b) \<le> unat (x - a)" by simp
    from unat_diff_le [OF this] that assms show False by simp
  qed
  then show ?thesis by (auto simp: window_def)
qed

end
