(* ===== verification/Machines.thy ===== *)
theory Machines
  imports Target_Memory
begin

unbundle bit_operations_syntax

text \<open>
  \<open>src/machines.h\<close> (Linux): for each of the four machines, where a called function finds its
  return address, arguments and result, and how a trap instruction is written and
  recognised. A suffix names the machine (\<open>_x86\<close>, \<open>_x86_64\<close>, \<open>_armv7\<close>, \<open>_aarch64\<close>). The
  locale \<open>trap_machine\<close> is the contract of the trap operations, interpreted on each machine.
\<close>

section \<open>x86\<close>

record x86_regs =
  esp :: u32
  eax :: u32
  eip :: u32

definition call_return_address_x86 :: "pid \<Rightarrow> x86_regs \<Rightarrow> (u32, x86_regs) target \<Rightarrow> u32" where
  "call_return_address_x86 p regs t = ptrace_get_data p (esp regs) t"

definition call_return_value_x86 :: "x86_regs \<Rightarrow> u32" where
  "call_return_value_x86 regs = eax regs"

definition call_arg1_x86 :: "pid \<Rightarrow> x86_regs \<Rightarrow> (u32, x86_regs) target \<Rightarrow> u32" where
  "call_arg1_x86 p regs t = ptrace_get_data p (esp regs + 4) t"

definition call_arg2_x86 :: "pid \<Rightarrow> x86_regs \<Rightarrow> (u32, x86_regs) target \<Rightarrow> u32" where
  "call_arg2_x86 p regs t = ptrace_get_data p (esp regs + 8) t"

definition pc_unwind_x86 :: "pid \<Rightarrow> x86_regs \<Rightarrow> (u32, x86_regs) target \<Rightarrow> u32 \<times> x86_regs \<times> (u32, x86_regs) target" where
  "pc_unwind_x86 p regs t =
     (let regs' = regs\<lparr>eip := eip regs - 1\<rparr> in (eip regs', regs', ptrace_set_regs p regs' t))"

definition set_breakpoint_x86 :: "pid \<Rightarrow> u32 \<Rightarrow> u32 \<Rightarrow> (u32, 'r) target \<Rightarrow> (u32, 'r) target" where
  "set_breakpoint_x86 p address code t = ptrace_set_data p address ((code AND 0xFFFFFF00) OR 0xCC) t"

definition is_breakpoint_x86 :: "pid \<Rightarrow> u32 \<Rightarrow> (u32, 'r) target \<Rightarrow> bool" where
  "is_breakpoint_x86 p address t \<longleftrightarrow> ptrace_get_data p address t AND 0xFF = 0xCC"

section \<open>x86-64\<close>

record x86_64_regs =
  rsp :: u64
  rax :: u64
  rsi :: u64
  rdi :: u64
  rip :: u64

definition call_return_address_x86_64 :: "pid \<Rightarrow> x86_64_regs \<Rightarrow> (u64, x86_64_regs) target \<Rightarrow> u64" where
  "call_return_address_x86_64 p regs t = ptrace_get_data p (rsp regs) t"

definition call_return_value_x86_64 :: "x86_64_regs \<Rightarrow> u64" where
  "call_return_value_x86_64 regs = rax regs"

definition call_arg1_x86_64 :: "x86_64_regs \<Rightarrow> u64" where
  "call_arg1_x86_64 regs = rdi regs"

definition call_arg2_x86_64 :: "x86_64_regs \<Rightarrow> u64" where
  "call_arg2_x86_64 regs = rsi regs"

definition pc_unwind_x86_64 ::
  "pid \<Rightarrow> x86_64_regs \<Rightarrow> (u64, x86_64_regs) target \<Rightarrow> u64 \<times> x86_64_regs \<times> (u64, x86_64_regs) target" where
  "pc_unwind_x86_64 p regs t =
     (let regs' = regs\<lparr>rip := rip regs - 1\<rparr> in (rip regs', regs', ptrace_set_regs p regs' t))"

definition set_breakpoint_x86_64 :: "pid \<Rightarrow> u64 \<Rightarrow> u64 \<Rightarrow> (u64, 'r) target \<Rightarrow> (u64, 'r) target" where
  "set_breakpoint_x86_64 p address code t =
     ptrace_set_data p address ((code AND 0xFFFFFFFFFFFFFF00) OR 0xCC) t"

definition is_breakpoint_x86_64 :: "pid \<Rightarrow> u64 \<Rightarrow> (u64, 'r) target \<Rightarrow> bool" where
  "is_breakpoint_x86_64 p address t \<longleftrightarrow> ptrace_get_data p address t AND 0xFF = 0xCC"

section \<open>ARMv7\<close>

record armv7_regs =
  uregs :: "nat \<Rightarrow> u32"

definition call_return_address_armv7 :: "armv7_regs \<Rightarrow> u32" where
  "call_return_address_armv7 regs = uregs regs 14"

definition call_return_value_armv7 :: "armv7_regs \<Rightarrow> u32" where
  "call_return_value_armv7 regs = uregs regs 0"

definition call_arg1_armv7 :: "armv7_regs \<Rightarrow> u32" where
  "call_arg1_armv7 regs = uregs regs 0"

definition call_arg2_armv7 :: "armv7_regs \<Rightarrow> u32" where
  "call_arg2_armv7 regs = uregs regs 1"

definition pc_unwind_armv7 :: "armv7_regs \<Rightarrow> u32" where
  "pc_unwind_armv7 regs = uregs regs 15"

definition set_breakpoint_armv7 :: "pid \<Rightarrow> u32 \<Rightarrow> u32 \<Rightarrow> (u32, 'r) target \<Rightarrow> (u32, 'r) target" where
  "set_breakpoint_armv7 p address code t = ptrace_set_data p address 0xE7F001F0 t"

definition is_breakpoint_armv7 :: "pid \<Rightarrow> u32 \<Rightarrow> (u32, 'r) target \<Rightarrow> bool" where
  "is_breakpoint_armv7 p address t \<longleftrightarrow> ptrace_get_data p address t = 0xE7F001F0"

section \<open>AArch64\<close>

record aarch64_regs =
  xregs :: "nat \<Rightarrow> u64"
  pc :: u64

definition call_return_address_aarch64 :: "aarch64_regs \<Rightarrow> u64" where
  "call_return_address_aarch64 regs = xregs regs 30"

definition call_return_value_aarch64 :: "aarch64_regs \<Rightarrow> u64" where
  "call_return_value_aarch64 regs = xregs regs 0"

definition call_arg1_aarch64 :: "aarch64_regs \<Rightarrow> u64" where
  "call_arg1_aarch64 regs = xregs regs 0"

definition call_arg2_aarch64 :: "aarch64_regs \<Rightarrow> u64" where
  "call_arg2_aarch64 regs = xregs regs 1"

definition pc_unwind_aarch64 :: "aarch64_regs \<Rightarrow> u64" where
  "pc_unwind_aarch64 regs = pc regs"

definition set_breakpoint_aarch64 :: "pid \<Rightarrow> u64 \<Rightarrow> u64 \<Rightarrow> (u64, 'r) target \<Rightarrow> (u64, 'r) target" where
  "set_breakpoint_aarch64 p address code t = ptrace_set_data p address 0xd4200000 t"

definition is_breakpoint_aarch64 :: "pid \<Rightarrow> u64 \<Rightarrow> (u64, 'r) target \<Rightarrow> bool" where
  "is_breakpoint_aarch64 p address t \<longleftrightarrow> ptrace_get_data p address t = 0xd4200000"

section \<open>The contract of the trap operations\<close>

text \<open>\<open>foot a\<close> are the bytes a trap at \<open>a\<close> occupies and \<open>img i\<close> the byte it puts at offset
  \<open>i\<close>. Writing a trap with the original word as \<open>code\<close> changes these bytes and no other.\<close>

definition space_of :: "pid \<Rightarrow> ('a, 'r) target \<Rightarrow> 'a \<Rightarrow> u8" where
  "space_of p t = tmem t (tspace t p)"

definition set_space :: "pid \<Rightarrow> ('a \<Rightarrow> u8) \<Rightarrow> ('a, 'r) target \<Rightarrow> ('a, 'r) target" where
  "set_space p m t = t\<lparr>tmem := (tmem t)(tspace t p := m)\<rparr>"

lemma space_set_space [simp]: "space_of p (set_space p m t) = m"
  by (simp add: space_of_def set_space_def)

lemma space_set_space_other: "tspace t q \<noteq> tspace t p \<Longrightarrow> space_of q (set_space p m t) = space_of q t"
  by (simp add: space_of_def set_space_def)

lemma set_space_set_space [simp]: "set_space p m' (set_space p m t) = set_space p m' t"
  by (simp add: set_space_def)

lemma set_space_same [simp]: "set_space p (space_of p t) t = t"
  by (simp add: space_of_def set_space_def)

lemma set_space_fields [simp]:
  "tspace (set_space p m t) = tspace t" "tregs (set_space p m t) = tregs t"
  "tlog (set_space p m t) = tlog t" "tevent (set_space p m t) = tevent t" "tstop (set_space p m t) = tstop t"
  by (simp_all add: set_space_def)

lemma get_data_space: "tstop t p \<Longrightarrow> ptrace_get_data p a t = peek (space_of p t) a"
  by (simp add: ptrace_get_data_def space_of_def)

lemma set_data_space: "tstop t p \<Longrightarrow> ptrace_set_data p a d t = set_space p (poke (space_of p t) a d) t"
  by (simp add: ptrace_set_data_def space_of_def set_space_def)

lemma requests_running:
  assumes "\<not> tstop t p"
  shows "ptrace_get_data p a t = -1" "ptrace_set_data p a d t = t" "ptrace_set_regs p r t = t" "ptrace_get_regs p buf t = buf"
  using assms by (simp_all add: ptrace_get_data_def ptrace_set_data_def ptrace_set_regs_def ptrace_get_regs_def)

locale trap_machine =
  fixes set_bp :: "pid \<Rightarrow> 'w::len word \<Rightarrow> 'w word \<Rightarrow> ('w word, 'r) target \<Rightarrow> ('w word, 'r) target"
    and is_bp :: "pid \<Rightarrow> 'w word \<Rightarrow> ('w word, 'r) target \<Rightarrow> bool"
    and foot :: "'w word \<Rightarrow> 'w word set"
    and img :: "nat \<Rightarrow> u8"
  assumes foot_window: "foot a \<subseteq> window a"
    and set_bp: "tstop t p \<Longrightarrow> set_bp p a (peek m a) t =
      set_space p (\<lambda>x. if x \<in> foot a then img (unat (x - a))
                       else if x \<in> window a then m x else space_of p t x) t"
    and set_bp_running: "\<not> tstop t p \<Longrightarrow> set_bp p a c t = t"
    and is_bp: "tstop t p \<Longrightarrow> is_bp p a t \<longleftrightarrow> (\<forall>x\<in>foot a. space_of p t x = img (unat (x - a)))"
begin

lemma armed: "tstop t p \<Longrightarrow> is_bp p a (set_bp p a (peek m a) t)"
  by (simp add: set_bp is_bp)

lemma minimal:
  assumes "tstop t p"
  shows "set_bp p a (ptrace_get_data p a t) t =
     set_space p (\<lambda>x. if x \<in> foot a then img (unat (x - a)) else space_of p t x) t"
  unfolding get_data_space [OF assms] set_bp [OF assms] by (rule arg_cong [of _ _ "\<lambda>m. set_space p m t"]) auto

lemma restored: "ptrace_set_data p a (ptrace_get_data p a t) (set_bp p a (ptrace_get_data p a t) t) = t"
proof (cases "tstop t p")
  case True
  have "poke (\<lambda>x. if x \<in> foot a then img (unat (x - a)) else space_of p t x) a (peek (space_of p t) a)
    = space_of p t"
    using foot_window [of a] by (auto simp: poke_peek fun_eq_iff)
  then show ?thesis unfolding minimal [OF True] by (simp add: set_data_space get_data_space True)
qed (simp add: set_bp_running requests_running)

lemma is_bp_elsewhere:
  assumes "foot a \<inter> window b = {}" and t: "tstop t p"
  shows "is_bp p a (set_bp p b (peek m b) t) = is_bp p a t"
  using foot_window [of b] assms(1) by (simp add: set_bp is_bp t) (intro ball_cong; auto)

end

section \<open>The four machines keep the contract\<close>

lemma poke_one_byte:
  fixes m m' :: "'w::len word \<Rightarrow> u8"
  assumes "0 < word_bytes TYPE('w)"
  shows "poke m a ((peek m' a AND NOT (mask 8)) OR ucast b) =
    (\<lambda>x. if x = a then b else if x \<in> window a then m' x else m x)" (is "poke m a ?d = _")
proof
  fix x
  show "poke m a ?d x = (if x = a then b else if x \<in> window a then m' x else m x)"
  proof (cases "x \<in> window a")
    case True
    define i where "i = unat (x - a)"
    have i: "i < word_bytes TYPE('w)" using True by (simp add: window_def i_def)
    have m': "m' (a + of_nat i) = m' x" by (simp add: i_def)
    have L: "8 * i + 8 \<le> LENGTH('w)" using i by (auto simp: word_bytes_def)
    have "(ucast (drop_bit (8 * i) ?d) :: u8) = (if i = 0 then b else ucast (drop_bit (8 * i) (peek m' a)))"
    proof (rule bit_word_eqI)
      fix n assume "n < LENGTH(8)"
      then show "bit (ucast (drop_bit (8 * i) ?d) :: u8) n =
          bit (if i = 0 then b else ucast (drop_bit (8 * i) (peek m' a))) n"
        using L by (cases "i = 0") (auto simp: bit_simps dest: bit_imp_le_length)
    qed
    moreover have "i = 0 \<longleftrightarrow> x = a" by (auto simp: i_def unat_eq_zero)
    ultimately show ?thesis
      unfolding poke_inside [OF True] i_def [symmetric] byte_peek [OF i] m' using True by auto
  next
    case False
    with assms show ?thesis by (auto simp: poke_outside)
  qed
qed

lemma and_low_byte:
  fixes m :: "'w::len word \<Rightarrow> u8"
  assumes "0 < word_bytes TYPE('w)"
  shows "peek m a AND mask 8 = ucast b \<longleftrightarrow> m a = b"
proof -
  have len: "8 \<le> LENGTH('w)" using assms by (simp add: word_bytes_def)
  have "peek m a AND mask 8 = ucast (ucast (peek m a) :: u8)"
    by (rule bit_word_eqI) (auto simp: bit_simps)
  moreover have "(ucast (peek m a) :: u8) = m a" using byte_peek [OF assms, of m a] by simp
  moreover have "(ucast (ucast c :: 'w word) :: u8) = c" for c :: u8
    by (rule bit_word_eqI) (use len in \<open>auto simp: bit_simps\<close>)
  then have "(ucast (m a) :: 'w word) = ucast b \<longleftrightarrow> m a = b" by metis
  ultimately show ?thesis by simp
qed

lemma poke_word:
  fixes m :: "'w::len word \<Rightarrow> u8"
  shows "poke m a d = (\<lambda>x. if x \<in> window a then ucast (drop_bit (8 * unat (x - a)) d) else m x)"
  by (auto simp: poke_def window_def)

lemma peek_eq_iff:
  fixes d :: "'w::len word"
  assumes "8 dvd LENGTH('w)"
  shows "peek m a = d \<longleftrightarrow> (\<forall>x\<in>window a. m x = ucast (drop_bit (8 * unat (x - a)) d))"
proof
  assume "peek m a = d"
  then show "\<forall>x\<in>window a. m x = ucast (drop_bit (8 * unat (x - a)) d)"
    using poke_inside poke_peek_inside by metis
next
  assume "\<forall>x\<in>window a. m x = ucast (drop_bit (8 * unat (x - a)) d)"
  then have "m = poke m a d" by (auto simp: poke_word)
  then show "peek m a = d" using peek_poke [OF assms] by metis
qed

lemmas space_access = set_data_space get_data_space

interpretation bp_x86: trap_machine set_breakpoint_x86 is_breakpoint_x86 "\<lambda>a. {a}" "\<lambda>_. 0xCC"
proof
  have mask: "(0xFFFFFF00 :: u32) = NOT (mask 8)" "(0xCC :: u32) = ucast (0xCC :: u8)" "(0xFF :: u32) = mask 8"
    by (simp_all add: mask_eq_decr_exp)
  fix p a m c and t :: "(u32, 'a) target"
  show "\<not> tstop t p \<Longrightarrow> set_breakpoint_x86 p a c t = t" by (simp add: set_breakpoint_x86_def requests_running)
  assume t: "tstop t p"
  show "set_breakpoint_x86 p a (peek m a) t = set_space p (\<lambda>x. if x \<in> {a} then 0xCC
      else if x \<in> window a then m x else space_of p t x) t"
    unfolding set_breakpoint_x86_def set_data_space [OF t] mask(1,2) by (subst poke_one_byte) simp_all
  show "is_breakpoint_x86 p a t \<longleftrightarrow> (\<forall>x\<in>{a}. space_of p t x = 0xCC)"
    unfolding is_breakpoint_x86_def get_data_space [OF t] mask(2,3) by (subst and_low_byte) simp_all
qed (simp_all add: window_def)

interpretation bp_x86_64: trap_machine set_breakpoint_x86_64 is_breakpoint_x86_64 "\<lambda>a. {a}" "\<lambda>_. 0xCC"
proof
  have mask: "(0xFFFFFFFFFFFFFF00 :: u64) = NOT (mask 8)" "(0xCC :: u64) = ucast (0xCC :: u8)" "(0xFF :: u64) = mask 8"
    by (simp_all add: mask_eq_decr_exp)
  fix p a m c and t :: "(u64, 'a) target"
  show "\<not> tstop t p \<Longrightarrow> set_breakpoint_x86_64 p a c t = t" by (simp add: set_breakpoint_x86_64_def requests_running)
  assume t: "tstop t p"
  show "set_breakpoint_x86_64 p a (peek m a) t = set_space p (\<lambda>x. if x \<in> {a} then 0xCC
      else if x \<in> window a then m x else space_of p t x) t"
    unfolding set_breakpoint_x86_64_def set_data_space [OF t] mask(1,2) by (subst poke_one_byte) simp_all
  show "is_breakpoint_x86_64 p a t \<longleftrightarrow> (\<forall>x\<in>{a}. space_of p t x = 0xCC)"
    unfolding is_breakpoint_x86_64_def get_data_space [OF t] mask(2,3) by (subst and_low_byte) simp_all
qed simp_all

interpretation bp_armv7: trap_machine set_breakpoint_armv7 is_breakpoint_armv7 window
  "\<lambda>i. ucast (drop_bit (8 * i) (0xE7F001F0 :: u32))"
  by unfold_locales
    (simp_all add: set_breakpoint_armv7_def is_breakpoint_armv7_def space_access requests_running poke_word peek_eq_iff cong: if_cong)

interpretation bp_aarch64: trap_machine set_breakpoint_aarch64 is_breakpoint_aarch64 window
  "\<lambda>i. ucast (drop_bit (8 * i) (0xd4200000 :: u64))"
  by unfold_locales
    (simp_all add: set_breakpoint_aarch64_def is_breakpoint_aarch64_def space_access requests_running poke_word peek_eq_iff cong: if_cong)

text \<open>The bytes of a word, one by one.\<close>

lemma window_bytes: "window (a :: 'w::len word) = set (map (\<lambda>i. a + of_nat i) [0..<word_bytes TYPE('w)])"
proof -
  have "x \<in> (\<lambda>i. a + of_nat i) ` {0..<word_bytes TYPE('w)}" if "unat (x - a) < word_bytes TYPE('w)" for x
    using that by (intro image_eqI [of _ _ "unat (x - a)"]) simp_all
  then show ?thesis using unat_offset by (force simp: window_def)
qed

lemma window_32: "window (a :: u32) = {a, a + 1, a + 2, a + 3}"
  by (simp add: window_bytes upt_rec)

lemma window_64: "window (a :: u64) = {a, a + 1, a + 2, a + 3, a + 4, a + 5, a + 6, a + 7}"
  by (simp add: window_bytes upt_rec)

lemma trap_byte_numerals:
  "(3891266032 :: u8) = 240" "(15200257 :: u8) = 1" "(59376 :: u8) = 240" "(3558866944 :: u8) = 0" "(13901824 :: u8) = 0"
  "(54304 :: u8) = 32"
  by simp_all

lemma armv7_bytes:
  "(\<lambda>x. if x \<in> window (a :: u32) then ucast (drop_bit (8 * unat (x - a)) (0xE7F001F0 :: u32)) else m x) =
     m(a := 0xF0, a + 1 := 0x01, a + 2 := 0xF0, a + 3 := (0xE7 :: u8))"
proof
  fix x
  consider "x \<in> window a" | "x \<notin> window a" by blast
  then show "(if x \<in> window a then ucast (drop_bit (8 * unat (x - a)) (0xE7F001F0 :: u32)) else m x) = (m(a := 0xF0, a + 1 := 0x01, a + 2 := 0xF0, a + 3 := (0xE7 :: u8))) x"
  proof cases
    case 1
    then have "x \<in> {a, a + 1, a + 2, a + 3}" by (simp only: window_32)
    with 1 show ?thesis by (elim insertE) (simp_all add: trap_byte_numerals)
  qed (simp add: window_32)
qed

lemma aarch64_bytes:
  "(\<lambda>x. if x \<in> window (a :: u64) then ucast (drop_bit (8 * unat (x - a)) (0xd4200000 :: u64)) else m x) =
     m(a := 0, a + 1 := 0, a + 2 := 0x20, a + 3 := 0xD4, a + 4 := 0, a + 5 := 0, a + 6 := 0, a + 7 := (0 :: u8))"
proof
  fix x
  consider "x \<in> window a" | "x \<notin> window a" by blast
  then show "(if x \<in> window a then ucast (drop_bit (8 * unat (x - a)) (0xd4200000 :: u64)) else m x) = (m(a := 0, a + 1 := 0, a + 2 := 0x20, a + 3 := 0xD4, a + 4 := 0, a + 5 := 0, a + 6 := 0, a + 7 := (0 :: u8))) x"
  proof cases
    case 1
    then have "x \<in> {a, a + 1, a + 2, a + 3, a + 4, a + 5, a + 6, a + 7}" by (simp only: window_64)
    with 1 show ?thesis by (elim insertE) (simp_all add: trap_byte_numerals)
  qed (simp add: window_64)
qed

lemma armv7_is_trap: "tstop t p \<Longrightarrow> is_breakpoint_armv7 p a t \<longleftrightarrow>
    map (space_of p t) [a, a + 1, a + 2, a + 3] = [0xF0, 0x01, 0xF0, 0xE7]"
  by (simp add: bp_armv7.is_bp window_32 trap_byte_numerals)

lemma aarch64_is_trap: "tstop t p \<Longrightarrow> is_breakpoint_aarch64 p a t \<longleftrightarrow>
    map (space_of p t) [a, a + 1, a + 2, a + 3, a + 4, a + 5, a + 6, a + 7] = [0, 0, 0x20, 0xD4, 0, 0, 0, 0]"
  by (simp add: bp_aarch64.is_bp window_64 trap_byte_numerals)

text \<open>C19 (trap_round_trip): on a stopped thread of every machine, setting a trap over the word
  that was read writes exactly the bytes of the machine's trap instruction (the one byte CC on
  x86 and x86-64, the word E7F001F0 on ARMv7, the 64-bit word D4200000 on AArch64) and no
  other byte; an address is taken for a trap exactly when these bytes are there; and writing the saved
  word back gives the target as it was.\<close>

theorem trap_round_trip:
  assumes "tstop t p" and "tstop u p" and "tstop v p" and "tstop w p"
  shows "(set_breakpoint_x86 p a (ptrace_get_data p a t) t = set_space p ((space_of p t)(a := 0xCC)) t \<and>
    (is_breakpoint_x86 p a t \<longleftrightarrow> space_of p t a = 0xCC) \<and>
    ptrace_set_data p a (ptrace_get_data p a t) (set_breakpoint_x86 p a (ptrace_get_data p a t) t) = t) \<and>
   (set_breakpoint_x86_64 p b (ptrace_get_data p b u) u = set_space p ((space_of p u)(b := 0xCC)) u \<and>
    (is_breakpoint_x86_64 p b u \<longleftrightarrow> space_of p u b = 0xCC) \<and>
    ptrace_set_data p b (ptrace_get_data p b u) (set_breakpoint_x86_64 p b (ptrace_get_data p b u) u) = u) \<and>
   (set_breakpoint_armv7 p c (ptrace_get_data p c v) v =
      set_space p ((space_of p v)(c := 0xF0, c + 1 := 0x01, c + 2 := 0xF0, c + 3 := 0xE7)) v \<and>
    (is_breakpoint_armv7 p c v \<longleftrightarrow> map (space_of p v) [c, c + 1, c + 2, c + 3] = [0xF0, 0x01, 0xF0, 0xE7]) \<and>
    ptrace_set_data p c (ptrace_get_data p c v) (set_breakpoint_armv7 p c (ptrace_get_data p c v) v) = v) \<and>
   (set_breakpoint_aarch64 p d (ptrace_get_data p d w) w =
      set_space p ((space_of p w)(d := 0, d + 1 := 0, d + 2 := 0x20, d + 3 := 0xD4,
        d + 4 := 0, d + 5 := 0, d + 6 := 0, d + 7 := 0)) w \<and>
    (is_breakpoint_aarch64 p d w \<longleftrightarrow>
       map (space_of p w) [d, d + 1, d + 2, d + 3, d + 4, d + 5, d + 6, d + 7] = [0, 0, 0x20, 0xD4, 0, 0, 0, 0]) \<and>
    ptrace_set_data p d (ptrace_get_data p d w) (set_breakpoint_aarch64 p d (ptrace_get_data p d w) w) = w)"
  by (intro conjI bp_x86.restored bp_x86_64.restored bp_armv7.restored bp_aarch64.restored;
      simp add: assms bp_x86.minimal bp_x86_64.minimal bp_armv7.minimal bp_aarch64.minimal armv7_bytes aarch64_bytes
        bp_x86.is_bp bp_x86_64.is_bp armv7_is_trap aarch64_is_trap) (simp_all add: fun_upd_def)

definition stopped_32 :: "(u32, unit) target" where
  "stopped_32 = \<lparr>tspace = (\<lambda>_. 0), tmem = (\<lambda>_ _. 0x90), tregs = (\<lambda>_. ()), tevent = (\<lambda>_. 0), tstop = (\<lambda>_. True), tlog = []\<rparr>"

definition stopped_64 :: "(u64, unit) target" where
  "stopped_64 = \<lparr>tspace = (\<lambda>_. 0), tmem = (\<lambda>_ _. 0x90), tregs = (\<lambda>_. ()), tevent = (\<lambda>_. 0), tstop = (\<lambda>_. True), tlog = []\<rparr>"

theorem trap_round_trip_witness:
  "space_of 7 (set_breakpoint_x86_64 7 0x1000 (ptrace_get_data 7 0x1000 stopped_64) stopped_64) 0x1000 = 0xCC \<and>
   space_of 7 (set_breakpoint_x86_64 7 0x1000 (ptrace_get_data 7 0x1000 stopped_64) stopped_64) 0x1001 = 0x90 \<and>
   space_of 7 (set_breakpoint_armv7 7 0x1000 (ptrace_get_data 7 0x1000 stopped_32) stopped_32) 0x1003 = 0xE7"
proof -
  have t: "tstop stopped_32 7" "tstop stopped_64 7" by (simp_all add: stopped_32_def stopped_64_def)
  have "space_of 7 stopped_64 0x1001 = 0x90" by (simp add: stopped_64_def space_of_def)
  then show ?thesis
    using trap_round_trip [OF t(1) t(2) t(1) t(2), of "0x1000" "0x1000" "0x1000" "0x1000"] by simp
qed

text \<open>Fact (aarch64_trap_overwrites_next): on AArch64 the trap is written as a 64-bit word, so
  besides the four bytes of the instruction at the address it also replaces the following
  instruction by zero, whatever it was. (On x86-64 the bytes after the trap are kept.)\<close>

theorem aarch64_trap_overwrites_next:
  assumes "tstop t p"
  shows "space_of p (set_breakpoint_aarch64 p a (ptrace_get_data p a t) t) (a + 4) = 0 \<and>
   space_of p (set_breakpoint_x86_64 p a (ptrace_get_data p a t) t) (a + 4) = space_of p t (a + 4)"
proof -
  have "a + 4 \<in> window a" by (simp add: window_def)
  then show ?thesis
    unfolding bp_aarch64.minimal [OF assms] bp_x86_64.minimal [OF assms] by simp
qed

end
