(* ===== verification/Linked_List.thy ===== *)
theory Linked_List
  imports Mlx_Prelude
begin

text \<open>
  The circular doubly linked list of \<open>src/list.h\<close> (lines 9-159) at pointer
  level. A heap has one function per field of \<open>struct list_head\<close>; a pointer is
  NULL, one of the list heads (named by the type \<open>'h\<close>), or the node embedded in
  the structure with a given address, so that \<open>list_entry\<close> is the projection
  from \<open>LNode n\<close> to \<open>n\<close>. Dereferencing NULL sets \<open>lfault\<close> instead of changing
  a field. The relation \<open>is_list h hh ns\<close> says that the list of head \<open>hh\<close> holds
  the nodes \<open>ns\<close> in order; each operation is proved to act on \<open>ns\<close> as its
  comment in the source says, and to leave the other lists of the heap alone.
\<close>

datatype 'h lptr = LNull | LHead 'h | LNode nat

record 'h lheap =
  lnext :: "'h lptr \<Rightarrow> 'h lptr"
  lprev :: "'h lptr \<Rightarrow> 'h lptr"
  lfault :: bool

section \<open>Operations\<close>

definition lset_next :: "'h lptr \<Rightarrow> 'h lptr \<Rightarrow> 'h lheap \<Rightarrow> 'h lheap" where
  "lset_next p v h = (if p = LNull then h\<lparr>lfault := True\<rparr>
     else h\<lparr>lnext := (lnext h)(p := v)\<rparr>)"

definition lset_prev :: "'h lptr \<Rightarrow> 'h lptr \<Rightarrow> 'h lheap \<Rightarrow> 'h lheap" where
  "lset_prev p v h = (if p = LNull then h\<lparr>lfault := True\<rparr>
     else h\<lparr>lprev := (lprev h)(p := v)\<rparr>)"

definition INIT_LIST_HEAD :: "'h lptr \<Rightarrow> 'h lheap \<Rightarrow> 'h lheap" where
  "INIT_LIST_HEAD p h = lset_prev p p (lset_next p p h)"

definition list_add_between :: "'h lptr \<Rightarrow> 'h lptr \<Rightarrow> 'h lptr \<Rightarrow> 'h lheap \<Rightarrow> 'h lheap" where
  "list_add_between nnew prv nxt h =
     (let h = lset_prev nxt nnew h;
          h = lset_next nnew nxt h;
          h = lset_prev nnew prv h
      in lset_next prv nnew h)"

definition list_add :: "'h lptr \<Rightarrow> 'h lptr \<Rightarrow> 'h lheap \<Rightarrow> 'h lheap" where
  "list_add nnew head h = list_add_between nnew head (lnext h head) h"

definition list_add_tail :: "'h lptr \<Rightarrow> 'h lptr \<Rightarrow> 'h lheap \<Rightarrow> 'h lheap" where
  "list_add_tail nnew head h = list_add_between nnew (lprev h head) head h"

definition list_del_between :: "'h lptr \<Rightarrow> 'h lptr \<Rightarrow> 'h lheap \<Rightarrow> 'h lheap" where
  "list_del_between prv nxt h = lset_next prv nxt (lset_prev nxt prv h)"

definition list_del :: "'h lptr \<Rightarrow> 'h lheap \<Rightarrow> 'h lheap" where
  "list_del entry h =
     (let h = list_del_between (lprev h entry) (lnext h entry) h
      in lset_next entry LNull (lset_prev entry LNull h))"

definition list_del_init :: "'h lptr \<Rightarrow> 'h lheap \<Rightarrow> 'h lheap" where
  "list_del_init entry h =
     INIT_LIST_HEAD entry (list_del_between (lprev h entry) (lnext h entry) h)"

definition list_empty :: "'h lptr \<Rightarrow> 'h lheap \<Rightarrow> bool" where
  "list_empty head h \<longleftrightarrow> lnext h head = head"

definition list_splice :: "'h lptr \<Rightarrow> 'h lptr \<Rightarrow> 'h lheap \<Rightarrow> 'h lheap" where
  "list_splice lst head h =
     (let first = lnext h lst
      in if first \<noteq> lst then
           let last = lprev h lst;
               at = lnext h head;
               h = lset_prev first head h;
               h = lset_next head first h;
               h = lset_next last at h
           in lset_prev at last h
         else h)"

text \<open>
  The traversals \<open>list_for_each\<close> (forward) and \<open>list_for_each_reverse_safe\<close>
  (backward), as the sequence of nodes they visit when the body leaves the
  links alone; \<open>None\<close> stands for a traversal that never meets the head again.
\<close>

partial_function (option) list_walk ::
  "('h lptr \<Rightarrow> 'h lptr) \<Rightarrow> 'h lptr \<Rightarrow> 'h lptr \<Rightarrow> 'h lptr list option" where
  "list_walk nxt pos head =
     (if pos = head then Some []
      else Option.bind (list_walk nxt (nxt pos) head) (\<lambda>ps. Some (pos # ps)))"

definition list_for_each :: "'h lptr \<Rightarrow> 'h lheap \<Rightarrow> 'h lptr list option" where
  "list_for_each head h = list_walk (lnext h) (lnext h head) head"

definition list_for_each_reverse :: "'h lptr \<Rightarrow> 'h lheap \<Rightarrow> 'h lptr list option" where
  "list_for_each_reverse head h = list_walk (lprev h) (lprev h head) head"

fun list_entry :: "'h lptr \<Rightarrow> nat" where
  "list_entry (LNode n) = n"
| "list_entry _ = 0"

section \<open>The abstraction\<close>

definition linked :: "'h lheap \<Rightarrow> 'h lptr \<Rightarrow> 'h lptr \<Rightarrow> bool" where
  "linked h p q \<longleftrightarrow> lnext h p = q \<and> lprev h q = p"

definition is_list :: "'h lheap \<Rightarrow> 'h \<Rightarrow> nat list \<Rightarrow> bool" where
  "is_list h hh ns \<longleftrightarrow> \<not> lfault h \<and> distinct ns \<and>
     successively (linked h) (LHead hh # map LNode ns @ [LHead hh])"

definition empty_heap :: "'h lheap" where
  "empty_heap = \<lparr>lnext = id, lprev = id, lfault = False\<rparr>"

lemma is_list_empty_heap: "is_list empty_heap hh []"
  by (simp add: is_list_def empty_heap_def linked_def)

text \<open>Inserting between two neighbours, on an arbitrary chain split into \<open>L\<close> and \<open>R\<close>.\<close>

lemma list_add_between_heap [heap_simps]:
  assumes "n \<noteq> LNull" "p \<noteq> LNull" "q \<noteq> LNull"
  shows "list_add_between n p q h =
     h\<lparr>lnext := (lnext h)(n := q, p := n), lprev := (lprev h)(q := n, n := p)\<rparr>"
  using assms by (simp add: list_add_between_def lset_next_def lset_prev_def Let_def)

lemma list_del_heap [heap_simps]:
  assumes "n \<noteq> LNull" "lprev h n \<noteq> LNull" "lnext h n \<noteq> LNull"
  shows "list_del n h =
     h\<lparr>lnext := (lnext h)(lprev h n := lnext h n, n := LNull),
       lprev := (lprev h)(lnext h n := lprev h n, n := LNull)\<rparr>"
  using assms
  by (simp add: list_del_def list_del_between_def lset_next_def lset_prev_def Let_def)

lemma linked_insert:
  assumes chain: "successively (linked h) (L @ R)" and ne: "L \<noteq> []" "R \<noteq> []"
    and dist: "distinct L" "distinct R"
    and sep: "hd R \<notin> set (tl L)" "last L \<notin> set (butlast R)"
    and new: "n \<notin> set L" "n \<notin> set R" "n \<noteq> LNull"
    and nn: "last L \<noteq> LNull" "hd R \<noteq> LNull"
  shows "successively (linked (list_add_between n (last L) (hd R) h)) (L @ n # R)"
    (is "successively (linked ?h) _")
proof -
  have h: "?h = h\<lparr>lnext := (lnext h)(n := hd R, last L := n), lprev := (lprev h)(hd R := n, n := last L)\<rparr>"
    using new nn by (simp add: list_add_between_heap)
  have [simp]: "last L \<notin> set (butlast L)" "hd R \<notin> set (tl R)"
    using dist ne by (auto simp: distinct_last_butlast) (cases R; auto)
  have "successively (linked ?h) L"
    by (rule successively_weaken [of "linked h"])
       (use chain sep new dist ne in \<open>auto simp: successively_append_iff h linked_def
          dest: in_set_butlastD list.set_sel(2)\<close>)
  moreover have "successively (linked ?h) R"
    by (rule successively_weaken [of "linked h"])
       (use chain sep new dist ne in \<open>auto simp: successively_append_iff h linked_def
          dest: in_set_butlastD list.set_sel(2)\<close>)
  moreover have "linked ?h (last L) n" "linked ?h n (hd R)"
    using new ne by (auto simp: h linked_def)
  ultimately show ?thesis
    using ne by (simp add: successively_append_iff successively_Cons)
qed

lemma linked_delete:
  assumes chain: "successively (linked h) (L @ n # R)" and ne: "L \<noteq> []" "R \<noteq> []"
    and dist: "distinct L" "distinct R"
    and sep: "hd R \<notin> set (tl L)" "last L \<notin> set (butlast R)"
    and new: "n \<notin> set L" "n \<notin> set R" "n \<noteq> LNull"
    and nn: "last L \<noteq> LNull" "hd R \<noteq> LNull"
  shows "successively (linked (list_del n h)) (L @ R)" (is "successively (linked ?h) _")
    and "lprev h n = last L" and "lnext h n = hd R"
proof -
  from chain ne have pn: "lprev h n = last L" "lnext h n = hd R"
    by (auto simp: successively_append_iff successively_Cons linked_def)
  then show "lprev h n = last L" "lnext h n = hd R" by simp_all
  have h: "?h = h\<lparr>lnext := (lnext h)(last L := hd R, n := LNull), lprev := (lprev h)(hd R := last L, n := LNull)\<rparr>"
    using new nn by (simp add: list_del_heap pn)
  have [simp]: "last L \<notin> set (butlast L)" "hd R \<notin> set (tl R)"
    using dist ne by (auto simp: distinct_last_butlast) (cases R; auto)
  have "successively (linked ?h) L"
    by (rule successively_weaken [of "linked h"])
       (use chain sep new dist ne in \<open>auto simp: successively_append_iff h linked_def
          dest: in_set_butlastD list.set_sel(2)\<close>)
  moreover have "successively (linked ?h) R"
    by (rule successively_weaken [of "linked h"])
       (use chain sep new dist ne in \<open>auto simp: successively_append_iff successively_Cons h linked_def
          dest: in_set_butlastD list.set_sel(2)\<close>)
  moreover have "linked ?h (last L) (hd R)"
    using new ne by (auto simp: h linked_def)
  ultimately show "successively (linked ?h) (L @ R)"
    using ne by (simp add: successively_append_iff successively_Cons)
qed


section \<open>The operations on the abstraction\<close>

lemma is_list_prev_head: "is_list h hh ns \<Longrightarrow> lprev h (LHead hh) = last (LHead hh # map LNode ns)"
  by (auto simp: is_list_def linked_def successively_append_iff
      simp flip: append_Cons)

lemma is_list_next_head: "is_list h hh ns \<Longrightarrow> lnext h (LHead hh) = hd (map LNode ns @ [LHead hh])"
  by (auto simp: is_list_def linked_def successively_Cons)

lemma is_list_frame:
  assumes "is_list h hh ns"
    and "\<And>p. p \<in> insert (LHead hh) (LNode ` set ns) \<Longrightarrow> lnext h' p = lnext h p \<and> lprev h' p = lprev h p"
    and "lfault h' = lfault h"
  shows "is_list h' hh ns"
proof -
  have "successively (linked h') (LHead hh # map LNode ns @ [LHead hh]) =
        successively (linked h) (LHead hh # map LNode ns @ [LHead hh])"
    by (rule successively_cong) (use assms(2) in \<open>auto simp: linked_def\<close>)
  with assms show ?thesis by (simp add: is_list_def)
qed

lemma last_LNode: "last (LHead hh # map LNode ns) \<in> insert (LHead hh) (LNode ` set ns)"
  by (cases ns rule: rev_cases) auto

lemma hd_LNode: "hd (map LNode ns @ [LHead hh]) \<in> insert (LHead hh) (LNode ` set ns)"
  by (cases ns) auto

lemma is_list_insert:
  assumes rep: "is_list h hh (xs @ ys)" and new: "n \<notin> set (xs @ ys)"
    and L: "p = last (LHead hh # map LNode xs)" and R: "q = hd (map LNode ys @ [LHead hh])"
  shows "is_list (list_add_between (LNode n) p q h) hh (xs @ n # ys)"
proof -
  let ?L = "LHead hh # map LNode xs" and ?R = "map LNode ys @ [LHead hh]"
  have nn: "last ?L \<noteq> LNull" "hd ?R \<noteq> LNull"
    using last_LNode [of hh xs] hd_LNode [of ys hh] by auto
  have sep: "last ?L \<notin> set (butlast ?R)" "hd ?R \<notin> set (tl ?L)"
    using rep by (cases xs rule: rev_cases; cases ys; auto simp: is_list_def)+
  have dist: "distinct ?L" "distinct ?R" and ch: "successively (linked h) (?L @ ?R)"
    using rep by (auto simp: is_list_def distinct_map inj_on_def)
  have "successively (linked (list_add_between (LNode n) (last ?L) (hd ?R) h)) (?L @ LNode n # ?R)"
    by (rule linked_insert [OF ch _ _ dist sep(2) sep(1) _ _ _ nn]) (use new in auto)
  moreover have "lfault (list_add_between (LNode n) p q h) = lfault h"
    using nn L R by (simp add: list_add_between_heap)
  ultimately show ?thesis
    using rep new L R by (simp add: is_list_def)
qed

lemma is_list_list_add_tail:
  assumes "is_list h hh ns" and "n \<notin> set ns"
  shows "is_list (list_add_tail (LNode n) (LHead hh) h) hh (ns @ [n])"
  using is_list_insert [of h hh ns "[]" n] assms is_list_prev_head [OF assms(1)]
  by (simp add: list_add_tail_def)

lemma is_list_list_add:
  assumes "is_list h hh ns" and "n \<notin> set ns"
  shows "is_list (list_add (LNode n) (LHead hh) h) hh (n # ns)"
  using is_list_insert [of h hh "[]" ns n] assms is_list_next_head [OF assms(1)]
  by (simp add: list_add_def)

lemma list_add_tail_frame:
  assumes "is_list h hh xs" and other: "is_list h hh' ys"
    and "hh \<noteq> hh'" and "n \<notin> set ys" and "set xs \<inter> set ys = {}"
  shows "is_list (list_add_tail (LNode n) (LHead hh) h) hh' ys"
proof (rule is_list_frame [OF other])
  have last: "last (LHead hh # map LNode xs) \<in> insert (LHead hh) (LNode ` set xs)"
    by (rule last_LNode)
  then have nn: "last (LHead hh # map LNode xs) \<noteq> LNull" by auto
  fix p assume "p \<in> insert (LHead hh') (LNode ` set ys)"
  with assms last nn show "lnext (list_add_tail (LNode n) (LHead hh) h) p = lnext h p \<and>
      lprev (list_add_tail (LNode n) (LHead hh) h) p = lprev h p"
    by (auto simp: list_add_tail_def is_list_prev_head list_add_between_heap simp del: last.simps)
next
  have nn: "last (LHead hh # map LNode xs) \<noteq> LNull"
    using last_LNode [of hh xs] by auto
  then show "lfault (list_add_tail (LNode n) (LHead hh) h) = lfault h"
    using is_list_prev_head [OF assms(1)] by (simp add: list_add_tail_def list_add_between_heap)
qed

lemma is_list_delete:
  assumes rep: "is_list h hh (xs @ n # ys)"
  shows "is_list (list_del (LNode n) h) hh (xs @ ys)"
    and "lprev h (LNode n) \<in> insert (LHead hh) (LNode ` set xs)"
    and "lnext h (LNode n) \<in> insert (LHead hh) (LNode ` set ys)"
    and "lfault (list_del (LNode n) h) = lfault h"
proof -
  let ?L = "LHead hh # map LNode xs" and ?R = "map LNode ys @ [LHead hh]"
  have nn: "last ?L \<noteq> LNull" "hd ?R \<noteq> LNull"
    using last_LNode [of hh xs] hd_LNode [of ys hh] by auto
  have sep: "last ?L \<notin> set (butlast ?R)" "hd ?R \<notin> set (tl ?L)"
    using rep by (cases xs rule: rev_cases; cases ys; auto simp: is_list_def)+
  have dist: "distinct ?L" "distinct ?R" and ch: "successively (linked h) (?L @ LNode n # ?R)"
    and new: "LNode n \<notin> set ?L" "LNode n \<notin> set ?R"
    using rep by (auto simp: is_list_def distinct_map inj_on_def)
  note del = linked_delete [OF ch _ _ dist sep(2) sep(1) new _ nn]
  show f: "lfault (list_del (LNode n) h) = lfault h"
    using nn del(2,3) by (simp add: list_del_heap)
  show "is_list (list_del (LNode n) h) hh (xs @ ys)"
    using rep del(1) f by (simp add: is_list_def)
  show "lprev h (LNode n) \<in> insert (LHead hh) (LNode ` set xs)"
    using del(2) last_LNode [of hh xs] by simp
  show "lnext h (LNode n) \<in> insert (LHead hh) (LNode ` set ys)"
    using del(3) hd_LNode [of ys hh] by simp
qed

lemma is_list_list_del:
  assumes "is_list h hh ns" and "n \<in> set ns"
  shows "is_list (list_del (LNode n) h) hh (remove1 n ns)"
proof -
  from assms(2) obtain xs ys where "ns = xs @ n # ys" by (auto dest: split_list)
  moreover with assms(1) have "n \<notin> set xs" by (simp add: is_list_def)
  ultimately show ?thesis
    using is_list_delete(1) [of h hh xs n ys] assms(1) by (simp add: remove1_append)
qed

lemma list_del_frame:
  assumes rep: "is_list h hh xs" and other: "is_list h hh' ys"
    and "hh \<noteq> hh'" and "n \<in> set xs" and disj: "set xs \<inter> set ys = {}"
  shows "is_list (list_del (LNode n) h) hh' ys"
proof -
  from \<open>n \<in> set xs\<close> obtain as bs where xs: "xs = as @ n # bs" by (auto dest: split_list)
  note d = is_list_delete [OF rep [unfolded xs]]
  then have "list_del (LNode n) h =
     h\<lparr>lnext := (lnext h)(lprev h (LNode n) := lnext h (LNode n), LNode n := LNull),
       lprev := (lprev h)(lnext h (LNode n) := lprev h (LNode n), LNode n := LNull)\<rparr>"
    by (auto simp: list_del_heap)
  with d(2-3) \<open>hh \<noteq> hh'\<close> disj xs show ?thesis
    by (intro is_list_frame [OF other]) auto
qed

lemma is_list_INIT_LIST_HEAD:
  assumes "\<not> lfault h"
  shows "is_list (INIT_LIST_HEAD (LHead hh) h) hh []"
  using assms by (simp add: is_list_def INIT_LIST_HEAD_def lset_next_def lset_prev_def linked_def)

lemma is_list_list_empty: "is_list h hh ns \<Longrightarrow> list_empty (LHead hh) h \<longleftrightarrow> ns = []"
  by (cases ns) (auto simp: list_empty_def is_list_next_head)

section \<open>Traversals\<close>

lemma list_walk_chain:
  assumes "successively (\<lambda>p q. nxt p = q) (ps @ [e])" and "e \<notin> set ps"
  shows "list_walk nxt (hd (ps @ [e])) e = Some ps"
  using assms
proof (induction ps)
  case Nil
  then show ?case by (simp add: list_walk.simps)
next
  case (Cons p ps)
  then have "nxt p = hd (ps @ [e])" by (auto simp: successively_Cons)
  with Cons show ?case
    by (auto simp: list_walk.simps [of nxt p] successively_Cons)
qed

lemma is_list_list_for_each:
  assumes "is_list h hh ns"
  shows "list_for_each (LHead hh) h = Some (map LNode ns)"
proof -
  have "successively (\<lambda>p q. lnext h p = q) (map LNode ns @ [LHead hh])"
    using assms by (auto simp: is_list_def linked_def successively_Cons elim: successively_mono)
  then have "list_walk (lnext h) (hd (map LNode ns @ [LHead hh])) (LHead hh) = Some (map LNode ns)"
    by (rule list_walk_chain) auto
  then show ?thesis
    by (simp add: list_for_each_def is_list_next_head [OF assms])
qed

lemma is_list_unique:
  assumes "is_list h hh xs" "is_list h hh ys"
  shows "xs = ys"
proof -
  have "(map LNode xs :: 'a lptr list) = map LNode ys"
    using is_list_list_for_each [OF assms(1)] is_list_list_for_each [OF assms(2)] by simp
  then show ?thesis by (simp add: inj_map_eq_map inj_def)
qed

lemma is_list_list_for_each_reverse:
  assumes "is_list h hh ns"
  shows "list_for_each_reverse (LHead hh) h = Some (rev (map LNode ns))"
proof -
  have "successively (\<lambda>p q. lprev h q = p) ((LHead hh # map LNode ns) @ [LHead hh])"
    using assms by (auto simp: is_list_def linked_def elim: successively_mono)
  then have "successively (\<lambda>p q. lprev h q = p) (LHead hh # map LNode ns)"
    unfolding successively_append_iff by blast
  then have "successively (\<lambda>p q. lprev h p = q) (rev (LHead hh # map LNode ns))"
    unfolding successively_rev .
  then have "successively (\<lambda>p q. lprev h p = q) (rev (map LNode ns) @ [LHead hh])"
    by simp
  then have "list_walk (lprev h) (hd (rev (map LNode ns) @ [LHead hh])) (LHead hh) = Some (rev (map LNode ns))"
    by (rule list_walk_chain) auto
  moreover have "lprev h (LHead hh) = hd (rev (map LNode ns) @ [LHead hh])"
    using is_list_prev_head [OF assms] by (cases ns rule: rev_cases) auto
  ultimately show ?thesis by (simp add: list_for_each_reverse_def)
qed

section \<open>Interface\<close>

text \<open>
  What the clients of \<open>list.h\<close> rely on: a state \<open>'s\<close> that holds several lists,
  appending to a list, unlinking a node, and traversal.
\<close>

locale node_lists =
  fixes holds :: "'s \<Rightarrow> 'h \<Rightarrow> nat list \<Rightarrow> bool"
    and append_node :: "nat \<Rightarrow> 'h \<Rightarrow> 's \<Rightarrow> 's"
    and push_node :: "nat \<Rightarrow> 'h \<Rightarrow> 's \<Rightarrow> 's"
    and unlink_node :: "nat \<Rightarrow> 's \<Rightarrow> 's"
  assumes holds_distinct: "holds s a xs \<Longrightarrow> distinct xs"
    and holds_append: "holds s a xs \<Longrightarrow> n \<notin> set xs \<Longrightarrow> holds (append_node n a s) a (xs @ [n])"
    and holds_push: "holds s a xs \<Longrightarrow> n \<notin> set xs \<Longrightarrow> holds (push_node n a s) a (n # xs)"
    and holds_unlink: "holds s a xs \<Longrightarrow> n \<in> set xs \<Longrightarrow> holds (unlink_node n s) a (remove1 n xs)"
    and append_other: "holds s a xs \<Longrightarrow> holds s b ys \<Longrightarrow> a \<noteq> b \<Longrightarrow> n \<notin> set ys \<Longrightarrow>
      set xs \<inter> set ys = {} \<Longrightarrow> holds (append_node n a s) b ys"
    and unlink_other: "holds s a xs \<Longrightarrow> holds s b ys \<Longrightarrow> a \<noteq> b \<Longrightarrow> n \<in> set xs \<Longrightarrow>
      set xs \<inter> set ys = {} \<Longrightarrow> holds (unlink_node n s) b ys"
begin

text \<open>Moving a node to the tail of another list, and to the front of its own.\<close>

lemma move_node:
  assumes "holds s a xs" "holds s b ys" "a \<noteq> b" "n \<in> set xs" "set xs \<inter> set ys = {}"
  shows "holds (append_node n b (unlink_node n s)) a (remove1 n xs)"
    and "holds (append_node n b (unlink_node n s)) b (ys @ [n])"
proof -
  have d: "distinct xs" using assms holds_distinct by blast
  have 1: "holds (unlink_node n s) a (remove1 n xs)" using assms holds_unlink by blast
  have 2: "holds (unlink_node n s) b ys" using assms unlink_other by blast
  show "holds (append_node n b (unlink_node n s)) b (ys @ [n])"
    using assms by (intro holds_append [OF 2]) auto
  show "holds (append_node n b (unlink_node n s)) a (remove1 n xs)"
    using assms d by (intro append_other [OF 2 1]) (auto dest: notin_set_remove1)
qed

lemma refresh_node:
  assumes "holds s a xs" "n \<in> set xs"
  shows "holds (push_node n a (unlink_node n s)) a (n # remove1 n xs)"
  using holds_unlink [OF assms] assms holds_distinct by (intro holds_push) auto

end

interpretation dll: node_lists is_list
  "\<lambda>n hh. list_add_tail (LNode n) (LHead hh)" "\<lambda>n hh. list_add (LNode n) (LHead hh)"
  "\<lambda>n. list_del (LNode n)"
proof unfold_locales
  fix h :: "'h lheap" and a b :: 'h and xs ys n
  show "is_list h a xs \<Longrightarrow> distinct xs" by (simp add: is_list_def)
  show "is_list h a xs \<Longrightarrow> n \<notin> set xs \<Longrightarrow> is_list (list_add_tail (LNode n) (LHead a) h) a (xs @ [n])"
    by (rule is_list_list_add_tail)
  show "is_list h a xs \<Longrightarrow> n \<notin> set xs \<Longrightarrow> is_list (list_add (LNode n) (LHead a) h) a (n # xs)"
    by (rule is_list_list_add)
  show "is_list h a xs \<Longrightarrow> n \<in> set xs \<Longrightarrow> is_list (list_del (LNode n) h) a (remove1 n xs)"
    by (rule is_list_list_del)
  show "is_list h a xs \<Longrightarrow> is_list h b ys \<Longrightarrow> a \<noteq> b \<Longrightarrow> n \<notin> set ys \<Longrightarrow> set xs \<inter> set ys = {} \<Longrightarrow>
      is_list (list_add_tail (LNode n) (LHead a) h) b ys"
    by (rule list_add_tail_frame)
  show "is_list h a xs \<Longrightarrow> is_list h b ys \<Longrightarrow> a \<noteq> b \<Longrightarrow> n \<in> set xs \<Longrightarrow> set xs \<inter> set ys = {} \<Longrightarrow>
      is_list (list_del (LNode n) h) b ys"
    by (rule list_del_frame)
qed

text \<open>C32 (list_add_del_traversal): on a well-formed list, adding a node at either end and
  deleting it again are seen by both traversals as the operations on sequences: the
  forward traversal gives the sequence, the backward one its reverse, and none of them
  runs forever or dereferences NULL.\<close>

theorem list_add_del_traversal:
  fixes h :: "'h lheap"
  assumes l: "is_list h a xs" and n: "n \<notin> set xs"
  defines "t \<equiv> list_add_tail (LNode n) (LHead a) h" and "f \<equiv> list_add (LNode n) (LHead a) h"
  shows "list_for_each (LHead a) t = Some (map LNode (xs @ [n])) \<and>
    list_for_each_reverse (LHead a) t = Some (rev (map LNode (xs @ [n]))) \<and>
    list_for_each (LHead a) f = Some (map LNode (n # xs)) \<and>
    list_for_each_reverse (LHead a) f = Some (rev (map LNode (n # xs))) \<and>
    list_for_each (LHead a) (list_del (LNode n) t) = Some (map LNode xs) \<and>
    list_for_each (LHead a) (list_del (LNode n) f) = Some (map LNode xs) \<and>
    \<not> lfault (list_del (LNode n) t) \<and> \<not> lfault (list_del (LNode n) f)"
proof -
  have t: "is_list t a (xs @ [n])" and f: "is_list f a (n # xs)"
    unfolding t_def f_def using dll.holds_append [OF l n] dll.holds_push [OF l n] by simp_all
  have "is_list (list_del (LNode n) t) a xs" "is_list (list_del (LNode n) f) a xs"
    using dll.holds_unlink [OF t, of n] dll.holds_unlink [OF f, of n] n by (simp_all add: remove1_append)
  then show ?thesis
    using is_list_list_for_each [OF t] is_list_list_for_each_reverse [OF t]
      is_list_list_for_each [OF f] is_list_list_for_each_reverse [OF f]
      is_list_list_for_each [of "list_del (LNode n) t" a xs] is_list_list_for_each [of "list_del (LNode n) f" a xs]
    by (simp add: is_list_def)
qed

theorem list_add_del_traversal_witness:
  "is_list (empty_heap :: bool lheap) True [] \<and>
   list_for_each (LHead True) (list_add_tail (LNode 4) (LHead True) (empty_heap :: bool lheap)) = Some [LNode 4]"
  using list_add_del_traversal [OF is_list_empty_heap, of 4 True] is_list_empty_heap [of True] by simp

end
