(* ===== verification/Hash_Table.thy ===== *)
theory Hash_Table
  imports Mlx_Prelude
begin

text \<open>
  The hash chains of \<open>src/list.h\<close> (lines 161-266, \<open>struct hlist_head\<close> and
  \<open>struct hlist_node\<close>) and the hash table of \<open>src/hash.h\<close>, at pointer level. A
  node is named by the address of the structure it is embedded in; \<open>pprev\<close> is a
  pointer to the pointer that refers to the node, which is either the head of a
  slot (\<open>HFirst i\<close>) or the \<open>next\<close> field of another node (\<open>HNext n\<close>). A write
  through a NULL \<open>pprev\<close> sets \<open>hfault\<close>. The words of memory that follow a node,
  which \<open>hash.h\<close> takes for the key, are given by a function \<open>keys\<close>.
\<close>

datatype hloc = HNullLoc | HFirst nat | HNext nat

record hheap =
  hfirst :: "nat \<Rightarrow> nat option"
  hnext :: "nat \<Rightarrow> nat option"
  hpprev :: "nat \<Rightarrow> hloc"
  hfault :: bool

section \<open>Chains\<close>

fun hload :: "hheap \<Rightarrow> hloc \<Rightarrow> nat option" where
  "hload h HNullLoc = None"
| "hload h (HFirst i) = hfirst h i"
| "hload h (HNext n) = hnext h n"

fun hstore :: "hloc \<Rightarrow> nat option \<Rightarrow> hheap \<Rightarrow> hheap" where
  "hstore HNullLoc v h = h\<lparr>hfault := True\<rparr>"
| "hstore (HFirst i) v h = h\<lparr>hfirst := (hfirst h)(i := v)\<rparr>"
| "hstore (HNext n) v h = h\<lparr>hnext := (hnext h)(n := v)\<rparr>"

definition INIT_HLIST_NODE :: "nat \<Rightarrow> hheap \<Rightarrow> hheap" where
  "INIT_HLIST_NODE n h =
     h\<lparr>hnext := (hnext h)(n := None), hpprev := (hpprev h)(n := HNullLoc)\<rparr>"

definition hlist_unhashed :: "nat \<Rightarrow> hheap \<Rightarrow> bool" where
  "hlist_unhashed n h \<longleftrightarrow> hpprev h n = HNullLoc"

definition hlist_empty :: "nat \<Rightarrow> hheap \<Rightarrow> bool" where
  "hlist_empty i h \<longleftrightarrow> hfirst h i = None"

definition hlist_del_links :: "nat \<Rightarrow> hheap \<Rightarrow> hheap" where
  "hlist_del_links n h =
     (let nxt = hnext h n; pp = hpprev h n; h = hstore pp nxt h
      in case nxt of None \<Rightarrow> h | Some m \<Rightarrow> h\<lparr>hpprev := (hpprev h)(m := pp)\<rparr>)"

definition hlist_del :: "nat \<Rightarrow> hheap \<Rightarrow> hheap" where
  "hlist_del n h =
     (let h = hlist_del_links n h
      in h\<lparr>hnext := (hnext h)(n := None), hpprev := (hpprev h)(n := HNullLoc)\<rparr>)"

definition hlist_del_init :: "nat \<Rightarrow> hheap \<Rightarrow> hheap" where
  "hlist_del_init n h =
     (if \<not> hlist_unhashed n h then INIT_HLIST_NODE n (hlist_del_links n h) else h)"

definition hlist_add_head :: "nat \<Rightarrow> nat \<Rightarrow> hheap \<Rightarrow> hheap" where
  "hlist_add_head n i h =
     (let first = hfirst h i;
          h = h\<lparr>hnext := (hnext h)(n := first)\<rparr>;
          h = (case first of None \<Rightarrow> h
               | Some f \<Rightarrow> h\<lparr>hpprev := (hpprev h)(f := HNext n)\<rparr>);
          h = h\<lparr>hfirst := (hfirst h)(i := Some n)\<rparr>
      in h\<lparr>hpprev := (hpprev h)(n := HFirst i)\<rparr>)"

definition hlist_add_before :: "nat \<Rightarrow> nat \<Rightarrow> hheap \<Rightarrow> hheap" where
  "hlist_add_before n nxt h =
     (let h = h\<lparr>hpprev := (hpprev h)(n := hpprev h nxt)\<rparr>;
          h = h\<lparr>hnext := (hnext h)(n := Some nxt)\<rparr>;
          h = h\<lparr>hpprev := (hpprev h)(nxt := HNext n)\<rparr>
      in hstore (hpprev h n) (Some n) h)"

definition hlist_add_after :: "nat \<Rightarrow> nat \<Rightarrow> hheap \<Rightarrow> hheap" where
  "hlist_add_after n nxt h =
     (let h = h\<lparr>hnext := (hnext h)(nxt := hnext h n)\<rparr>;
          h = h\<lparr>hnext := (hnext h)(n := Some nxt)\<rparr>;
          h = h\<lparr>hpprev := (hpprev h)(nxt := HNext n)\<rparr>
      in case hnext h nxt of None \<Rightarrow> h
         | Some m \<Rightarrow> h\<lparr>hpprev := (hpprev h)(m := HNext nxt)\<rparr>)"

definition hlist_move_list :: "nat \<Rightarrow> nat \<Rightarrow> hheap \<Rightarrow> hheap" where
  "hlist_move_list old nnew h =
     (let h = h\<lparr>hfirst := (hfirst h)(nnew := hfirst h old)\<rparr>;
          h = (case hfirst h nnew of None \<Rightarrow> h
               | Some f \<Rightarrow> h\<lparr>hpprev := (hpprev h)(f := HFirst nnew)\<rparr>)
      in h\<lparr>hfirst := (hfirst h)(old := None)\<rparr>)"

text \<open>
  \<open>hlist_for_each\<close> with a body that returns at the first node satisfying \<open>P\<close>,
  and as the sequence of all visited nodes; \<open>None\<close> is a traversal without end.
\<close>

partial_function (option) hlist_find ::
  "(nat \<Rightarrow> bool) \<Rightarrow> hheap \<Rightarrow> nat option \<Rightarrow> nat option option" where
  "hlist_find P h p =
     (case p of None \<Rightarrow> Some None
      | Some n \<Rightarrow> if P n then Some (Some n) else hlist_find P h (hnext h n))"

partial_function (option) hlist_for_each :: "hheap \<Rightarrow> nat option \<Rightarrow> nat list option" where
  "hlist_for_each h p =
     (case p of None \<Rightarrow> Some []
      | Some n \<Rightarrow> Option.bind (hlist_for_each h (hnext h n)) (\<lambda>ns. Some (n # ns)))"

section \<open>The table\<close>

definition HASH_SIZE :: nat where
  "HASH_SIZE = 29989"

definition hash_slot :: "(nat \<Rightarrow> u32) \<Rightarrow> nat \<Rightarrow> nat" where
  "hash_slot key len =
     unat (fold (\<lambda>i n. n XOR key i) [0..<len div 4] 0 mod (29989 :: u32))"

definition memcmp_eq :: "(nat \<Rightarrow> u32) \<Rightarrow> (nat \<Rightarrow> u32) \<Rightarrow> nat \<Rightarrow> bool" where
  "memcmp_eq a b len \<longleftrightarrow> list_all (\<lambda>i. a i = b i) [0..<len div 4]"

definition hash_add :: "(nat \<Rightarrow> nat \<Rightarrow> u32) \<Rightarrow> nat \<Rightarrow> nat \<Rightarrow> hheap \<Rightarrow> hheap" where
  "hash_add keys node len h = hlist_add_head node (hash_slot (keys node) len) h"

definition hash_delete :: "nat \<Rightarrow> hheap \<Rightarrow> hheap" where
  "hash_delete node h = hlist_del node h"

definition hash_search ::
  "(nat \<Rightarrow> nat \<Rightarrow> u32) \<Rightarrow> hheap \<Rightarrow> (nat \<Rightarrow> u32) \<Rightarrow> nat \<Rightarrow> nat option option" where
  "hash_search keys h vkey len =
     (let n = hash_slot vkey len
      in hlist_find (\<lambda>p. memcmp_eq (keys p) vkey len) h (hfirst h n))"

definition hash_for_each :: "hheap \<Rightarrow> nat list option" where
  "hash_for_each h =
     fold (\<lambda>i acc. Option.bind acc (\<lambda>ns.
        Option.bind (hlist_for_each h (hfirst h i)) (\<lambda>ms. Some (ns @ ms)))) [0..<HASH_SIZE] (Some [])"

definition empty_hash :: hheap where
  "empty_hash = \<lparr>hfirst = (\<lambda>_. None), hnext = (\<lambda>_. None), hpprev = (\<lambda>_. HNullLoc), hfault = False\<rparr>"

lemma hash_slot_bound: "hash_slot key len < HASH_SIZE"
proof -
  have "unat (x mod 29989) < unat (29989 :: u32)" for x :: u32
    by (simp add: unat_mod_distrib)
  from this show ?thesis by (simp add: hash_slot_def HASH_SIZE_def)
qed

lemma hash_slot_cong:
  assumes "memcmp_eq a b len"
  shows "hash_slot a len = hash_slot b len"
proof -
  have "fold (\<lambda>i n. n XOR a i) [0..<len div 4] 0 = fold (\<lambda>i n. n XOR b i) [0..<len div 4] 0"
    by (rule fold_cong) (use assms in \<open>auto simp: memcmp_eq_def list_all_iff\<close>)
  then show ?thesis by (simp add: hash_slot_def)
qed

section \<open>The abstraction\<close>

fun hchain :: "hheap \<Rightarrow> hloc \<Rightarrow> nat list \<Rightarrow> bool" where
  "hchain h l [] \<longleftrightarrow> hload h l = None"
| "hchain h l (n # ns) \<longleftrightarrow> hload h l = Some n \<and> hpprev h n = l \<and> hchain h (HNext n) ns"

text \<open>
  \<open>hash_rep slot h ns\<close>: the table holds exactly the nodes \<open>ns\<close>, newest first, each
  chained in its slot.
\<close>

definition hash_rep :: "(nat \<Rightarrow> nat) \<Rightarrow> hheap \<Rightarrow> nat list \<Rightarrow> bool" where
  "hash_rep slot h ns \<longleftrightarrow> \<not> hfault h \<and> distinct ns \<and>
     (\<forall>i. hchain h (HFirst i) (filter (\<lambda>n. slot n = i) ns))"

lemma hchain_frame:
  assumes "hload h' l = hload h l"
    and "\<And>n. n \<in> set ns \<Longrightarrow> hnext h' n = hnext h n \<and> hpprev h' n = hpprev h n"
  shows "hchain h' l ns = hchain h l ns"
  using assms by (induction ns arbitrary: l) auto

lemma hash_rep_empty: "hash_rep slot empty_hash []"
  by (simp add: hash_rep_def empty_hash_def)

lemma hash_rep_cong:
  assumes "\<And>n. n \<in> set ns \<Longrightarrow> slot n = slot' n"
  shows "hash_rep slot h ns = hash_rep slot' h ns"
proof -
  have "filter (\<lambda>n. slot n = i) ns = filter (\<lambda>n. slot' n = i) ns" for i
    using assms by (auto intro: filter_cong)
  then show ?thesis by (simp add: hash_rep_def)
qed

lemma hlist_find_chain: "hchain h l ns \<Longrightarrow> hlist_find P h (hload h l) = Some (find P ns)"
proof (induction ns arbitrary: l)
  case Nil
  then show ?case by (simp add: hlist_find.simps)
next
  case (Cons n ns)
  then show ?case using Cons.IH [of "HNext n"] by (simp add: hlist_find.simps [of P h "Some n"])
qed

lemma hlist_for_each_chain: "hchain h l ns \<Longrightarrow> hlist_for_each h (hload h l) = Some ns"
proof (induction ns arbitrary: l)
  case Nil
  then show ?case by (simp add: hlist_for_each.simps)
next
  case (Cons n ns)
  then show ?case using Cons.IH [of "HNext n"] by (simp add: hlist_for_each.simps [of h "Some n"])
qed

lemma hlist_add_head_chain:
  assumes "hchain h (HFirst i) ns" and "n \<notin> set ns" and "distinct ns"
  shows "hchain (hlist_add_head n i h) (HFirst i) (n # ns)"
proof (cases ns)
  case Nil
  with assms show ?thesis by (simp add: hlist_add_head_def Let_def)
next
  case (Cons m ms)
  have "hchain (hlist_add_head n i h) (HNext m) ms = hchain h (HNext m) ms"
    by (rule hchain_frame) (use assms Cons in \<open>auto simp: hlist_add_head_def Let_def\<close>)
  with assms Cons show ?thesis by (simp add: hlist_add_head_def Let_def)
qed

lemma hlist_add_head_other:
  assumes "hchain h (HFirst i) ns" and "hchain h (HFirst j) ms" and "i \<noteq> j"
    and "n \<notin> set ms" and "set ns \<inter> set ms = {}"
  shows "hchain (hlist_add_head n i h) (HFirst j) ms"
proof -
  have "hchain (hlist_add_head n i h) (HFirst j) ms = hchain h (HFirst j) ms"
    by (rule hchain_frame)
       (use assms in \<open>cases ns; auto simp: hlist_add_head_def Let_def\<close>)+
  with assms show ?thesis by simp
qed

text \<open>Unlinking the node after a prefix \<open>xs\<close> of a chain.\<close>

lemma hlist_del_hnext: "hnext (hlist_del n h) m =
   (if m = n then None else if hpprev h n = HNext m then hnext h n else hnext h m)"
  by (cases "hpprev h n") (auto simp: hlist_del_def hlist_del_links_def Let_def split: option.split)

lemma hlist_del_hpprev: "hpprev (hlist_del n h) m =
   (if m = n then HNullLoc else if hnext h n = Some m then hpprev h n else hpprev h m)"
  by (cases "hpprev h n") (auto simp: hlist_del_def hlist_del_links_def Let_def split: option.split)

lemma hlist_del_hfirst: "hfirst (hlist_del n h) i =
   (if hpprev h n = HFirst i then hnext h n else hfirst h i)"
  by (cases "hpprev h n") (auto simp: hlist_del_def hlist_del_links_def Let_def split: option.split)

lemma hlist_del_hfault: "hfault (hlist_del n h) \<longleftrightarrow> hfault h \<or> hpprev h n = HNullLoc"
  by (cases "hpprev h n") (auto simp: hlist_del_def hlist_del_links_def Let_def split: option.split)

lemmas hlist_del_fields [heap_simps] =
  hlist_del_hnext hlist_del_hpprev hlist_del_hfirst hlist_del_hfault

lemma hlist_del_hload: "l \<noteq> HNext n \<Longrightarrow> l \<noteq> HNullLoc \<Longrightarrow>
   hload (hlist_del n h) l = (if hpprev h n = l then hnext h n else hload h l)"
  by (cases l) (auto simp: heap_simps)

lemma hchain_pprev: "hchain h l (xs @ n # ys) \<Longrightarrow>
   hpprev h n = (if xs = [] then l else HNext (last xs))"
  by (induction xs arbitrary: l) auto

lemma hchain_next: "hchain h l (xs @ n # ys) \<Longrightarrow> hchain h (HNext n) ys"
  by (induction xs arbitrary: l) auto

lemma hlist_del_chain:
  assumes "hchain h l (xs @ n # ys)" and "distinct (xs @ n # ys)"
    and "l \<noteq> HNullLoc" and "l \<notin> HNext ` set (xs @ n # ys)"
  shows "hchain (hlist_del n h) l (xs @ ys)"
  using assms
proof (induction xs arbitrary: l)
  case Nil
  then have pp: "hpprev h n = l" and nx: "hchain h (HNext n) ys" by auto
  show ?case
  proof (cases ys)
    case Nil
    with pp nx \<open>l \<noteq> HNullLoc\<close> \<open>l \<notin> _\<close> show ?thesis by (simp add: hlist_del_hload)
  next
    case (Cons m ms)
    have "hchain (hlist_del n h) (HNext m) ms = hchain h (HNext m) ms"
      by (rule hchain_frame) (use Nil.prems Cons nx pp in \<open>auto simp: heap_simps\<close>)
    with Nil.prems Cons pp nx show ?thesis by (auto simp: hlist_del_hload hlist_del_hpprev)
  qed
next
  case (Cons x xs)
  have ch: "hchain h (HNext x) (xs @ n # ys)" using Cons.prems by simp
  have "hchain (hlist_del n h) (HNext x) (xs @ ys)"
    by (rule Cons.IH) (use Cons.prems in auto)
  moreover have "hpprev h n \<noteq> l"
    using hchain_pprev [OF ch] Cons.prems(4) last_in_set [of xs] by (cases "xs = []") force+
  moreover have "hnext h n \<noteq> Some x"
    using hchain_next [OF ch] Cons.prems by (cases ys) auto
  ultimately show ?case using Cons.prems by (auto simp: hlist_del_hload hlist_del_hpprev)
qed

lemma hlist_del_other:
  assumes "hchain h (HFirst i) (xs @ n # ys)" and "hchain h (HFirst j) ms" and "i \<noteq> j"
    and "set (xs @ n # ys) \<inter> set ms = {}"
  shows "hchain (hlist_del n h) (HFirst j) ms"
proof -
  have pp: "hpprev h n = (if xs = [] then HFirst i else HNext (last xs))"
    using assms(1) by (rule hchain_pprev)
  have "hnext h n = None \<or> (\<exists>m. hnext h n = Some m \<and> m \<in> set ys)"
    using hchain_next [OF assms(1)] by (cases ys) auto
  moreover have "xs = [] \<or> last xs \<notin> set ms" using assms(4) by (cases xs rule: rev_cases) auto
  ultimately have "hchain (hlist_del n h) (HFirst j) ms = hchain h (HFirst j) ms"
    by (intro hchain_frame) (use assms(3,4) pp in \<open>auto simp: heap_simps split: if_splits\<close>)
  with assms show ?thesis by simp
qed

section \<open>The table operations on the abstraction\<close>

lemma hash_rep_add_head:
  assumes rep: "hash_rep slot h ns" and new: "n \<notin> set ns"
  shows "hash_rep slot (hlist_add_head n (slot n) h) (n # ns)"
proof -
  have "hchain (hlist_add_head n (slot n) h) (HFirst i) (filter (\<lambda>m. slot m = i) (n # ns))" for i
  proof (cases "i = slot n")
    case True
    then show ?thesis
      using hlist_add_head_chain [of h i "filter (\<lambda>m. slot m = i) ns" n] rep new
      by (simp add: hash_rep_def)
  next
    case False
    then have "hchain (hlist_add_head n (slot n) h) (HFirst i) (filter (\<lambda>m. slot m = i) ns)"
      by (intro hlist_add_head_other [of _ _ "filter (\<lambda>m. slot m = slot n) ns"])
         (use rep new in \<open>auto simp: hash_rep_def\<close>)
    with False show ?thesis by simp
  qed
  moreover have "hfault (hlist_add_head n (slot n) h) = hfault h"
    by (simp add: hlist_add_head_def Let_def split: option.split)
  ultimately show ?thesis using rep new by (simp add: hash_rep_def)
qed

lemma hash_rep_hash_add:
  assumes "hash_rep (\<lambda>n. hash_slot (keys n) (len n)) h ns" and "n \<notin> set ns"
  shows "hash_rep (\<lambda>n. hash_slot (keys n) (len n)) (hash_add keys n (len n) h) (n # ns)"
  using hash_rep_add_head [OF assms] by (simp add: hash_add_def)

lemma hash_rep_hash_delete:
  assumes rep: "hash_rep slot h ns" and n: "n \<in> set ns"
  shows "hash_rep slot (hash_delete n h) (removeAll n ns)"
proof -
  let ?B = "\<lambda>i. filter (\<lambda>m. slot m = i) ns"
  from n obtain xs ys where B: "?B (slot n) = xs @ n # ys"
    using split_list [of n "?B (slot n)"] by auto
  from rep have ch: "hchain h (HFirst i) (?B i)" for i by (simp add: hash_rep_def)
  have d: "distinct (?B (slot n))" using rep by (simp add: hash_rep_def)
  have "hchain (hlist_del n h) (HFirst i) (removeAll n (?B i))" for i
  proof (cases "i = slot n")
    case True
    have "removeAll n (xs @ n # ys) = xs @ ys"
      using d B by (simp add: removeAll_id)
    then show ?thesis
      using True hlist_del_chain [OF ch [of "slot n", unfolded B]] d B by auto
  next
    case False
    then have "hchain (hlist_del n h) (HFirst i) (?B i)"
      by (intro hlist_del_other [OF ch [of "slot n", unfolded B] ch]) (auto simp flip: B)
    with False show ?thesis by (simp add: removeAll_id)
  qed
  moreover have "hpprev h n \<noteq> HNullLoc"
    using hchain_pprev [OF ch [of "slot n", unfolded B]] by (auto split: if_splits)
  ultimately show ?thesis
    using rep by (simp add: hash_rep_def hash_delete_def heap_simps filter_removeAll distinct_removeAll)
qed

text \<open>
  What a search finds: the newest node of the slot whose words agree with the key on
  the length of the key. The length the node was stored with plays no part.
\<close>

lemma hash_rep_hash_search:
  assumes "hash_rep slot h ns"
  shows "hash_search keys h vkey len =
    Some (find (\<lambda>n. slot n = hash_slot vkey len \<and> memcmp_eq (keys n) vkey len) ns)"
proof -
  have "hchain h (HFirst (hash_slot vkey len)) (filter (\<lambda>n. slot n = hash_slot vkey len) ns)"
    using assms by (simp add: hash_rep_def)
  from hlist_find_chain [OF this] show ?thesis
    by (simp add: hash_search_def find_conj_filter)
qed

lemma hash_rep_hash_for_each:
  assumes "hash_rep slot h ns"
  shows "hash_for_each h = Some (concat (map (\<lambda>i. filter (\<lambda>n. slot n = i) ns) [0..<HASH_SIZE]))"
proof -
  have e: "hlist_for_each h (hfirst h i) = Some (filter (\<lambda>n. slot n = i) ns)" for i
    using assms hlist_for_each_chain [of h "HFirst i"] by (simp add: hash_rep_def)
  have "fold (\<lambda>i acc. Option.bind acc (\<lambda>ms.
          Option.bind (hlist_for_each h (hfirst h i)) (\<lambda>ks. Some (ms @ ks)))) is (Some zs) =
        Some (zs @ concat (map (\<lambda>i. filter (\<lambda>n. slot n = i) ns) is))" for "is" zs
    by (induction "is" arbitrary: zs) (auto simp: e)
  from this [of "[0..<HASH_SIZE]" "[]"] show ?thesis by (simp only: hash_for_each_def append_Nil)
qed

section \<open>Keys of one machine word\<close>

definition word_key :: "u64 \<Rightarrow> nat \<Rightarrow> u32" where
  "word_key k i = ucast (drop_bit (32 * i) k)"

lemma memcmp_eq_word_key: "memcmp_eq (word_key a) (word_key b) 8 \<longleftrightarrow> a = b"
proof
  assume "memcmp_eq (word_key a) (word_key b) 8"
  then have "word_key a 0 = word_key b 0" "word_key a 1 = word_key b 1"
    by (auto simp: memcmp_eq_def upt_rec)
  then have lo: "bit (word_key a 0) i = bit (word_key b 0) i"
    and hi: "bit (word_key a 1) i = bit (word_key b 1) i" for i by simp_all
  show "a = b"
  proof (rule bit_word_eqI)
    fix k assume "k < LENGTH(64)"
    then show "bit a k = bit b k"
      using lo [of k] hi [of "k - 32"]
      by (cases "k < 32") (auto simp: word_key_def bit_simps)
  qed
qed (simp add: memcmp_eq_def list_all_iff)

text \<open>
  The interface of a table whose keys have one fixed length: the tracker's table of
  memory blocks (keyed by the pointer) and the unwinder's cache (keyed by the
  instruction pointer) use \<open>hash.h\<close> in this way.
\<close>

locale keyed_table =
  fixes holds :: "('n \<Rightarrow> 'k) \<Rightarrow> 's \<Rightarrow> 'n list \<Rightarrow> bool"
    and insert_node :: "('n \<Rightarrow> 'k) \<Rightarrow> 'n \<Rightarrow> 's \<Rightarrow> 's"
    and delete_node :: "'n \<Rightarrow> 's \<Rightarrow> 's"
    and lookup :: "('n \<Rightarrow> 'k) \<Rightarrow> 's \<Rightarrow> 'k \<Rightarrow> 'n option option"
  assumes holds_distinct: "holds key s ns \<Longrightarrow> distinct ns"
    and holds_cong: "(\<And>n. n \<in> set ns \<Longrightarrow> key n = key' n) \<Longrightarrow> holds key s ns = holds key' s ns"
    and holds_insert: "holds key s ns \<Longrightarrow> n \<notin> set ns \<Longrightarrow> holds key (insert_node key n s) (n # ns)"
    and holds_delete: "holds key s ns \<Longrightarrow> n \<in> set ns \<Longrightarrow> holds key (delete_node n s) (removeAll n ns)"
    and lookup_find: "holds key s ns \<Longrightarrow> lookup key s k = Some (find (\<lambda>n. key n = k) ns)"
begin

lemma lookup_inserted:
  assumes "holds key s ns" "n \<notin> set ns"
  shows "lookup key (insert_node key n s) k = (if key n = k then Some (Some n) else lookup key s k)"
  using lookup_find [OF holds_insert [OF assms]] lookup_find [OF assms(1)] by simp

lemma lookup_deleted:
  assumes "holds key s ns" "lookup key s k = Some (Some n)"
    and "\<And>m. m \<in> set ns \<Longrightarrow> key m = k \<Longrightarrow> m = n"
  shows "lookup key (delete_node n s) k = Some None"
proof -
  from assms have "n \<in> set ns" by (auto simp: lookup_find dest: find_Some_set)
  then have "lookup key (delete_node n s) k = Some (find (\<lambda>n. key n = k) (removeAll n ns))"
    using assms(1) holds_delete lookup_find by blast
  moreover have "find (\<lambda>n. key n = k) (removeAll n ns) = None"
    using assms(3) by (auto simp: find_None_iff)
  ultimately show ?thesis by simp
qed

lemma lookup_returns: "holds key s ns \<Longrightarrow> \<exists>r. lookup key s k = Some r"
  by (simp add: lookup_find)

end

definition word_table :: "(nat \<Rightarrow> u64) \<Rightarrow> hheap \<Rightarrow> nat list \<Rightarrow> bool" where
  "word_table key h ns \<longleftrightarrow> hash_rep (\<lambda>n. hash_slot (word_key (key n)) 8) h ns"

interpretation wt: keyed_table word_table
  "\<lambda>key n. hash_add (\<lambda>m. word_key (key m)) n 8" hash_delete
  "\<lambda>key h k. hash_search (\<lambda>m. word_key (key m)) h (word_key k) 8"
proof unfold_locales
  fix key key' :: "nat \<Rightarrow> u64" and h ns n k
  show "word_table key h ns \<Longrightarrow> distinct ns" by (simp add: word_table_def hash_rep_def)
  show "(\<And>n. n \<in> set ns \<Longrightarrow> key n = key' n) \<Longrightarrow> word_table key h ns = word_table key' h ns"
    unfolding word_table_def by (rule hash_rep_cong) simp
  show "word_table key h ns \<Longrightarrow> n \<notin> set ns \<Longrightarrow>
      word_table key (hash_add (\<lambda>m. word_key (key m)) n 8 h) (n # ns)"
    unfolding word_table_def by (rule hash_rep_hash_add)
  show "word_table key h ns \<Longrightarrow> n \<in> set ns \<Longrightarrow> word_table key (hash_delete n h) (removeAll n ns)"
    unfolding word_table_def by (rule hash_rep_hash_delete)
  assume rep: "word_table key h ns"
  have "find (\<lambda>n. hash_slot (word_key (key n)) 8 = hash_slot (word_key k) 8 \<and>
            memcmp_eq (word_key (key n)) (word_key k) 8) ns = find (\<lambda>n. key n = k) ns"
    by (rule find_cong_set) (auto simp: memcmp_eq_word_key)
  then show "hash_search (\<lambda>m. word_key (key m)) h (word_key k) 8 = Some (find (\<lambda>n. key n = k) ns)"
    using hash_rep_hash_search [OF rep [unfolded word_table_def], of "\<lambda>m. word_key (key m)" "word_key k" 8]
    by simp
qed

text \<open>C31 (hash_table_laws): the hash table behaves as a map from addresses to nodes: after an
  insertion a search for the inserted key finds the new node and every other search is
  as before; after deleting the only node of a key a search for it finds nothing. The
  searches always end.\<close>

theorem hash_table_laws:
  assumes t: "word_table key h ns" and n: "n \<notin> set ns"
  defines "search \<equiv> \<lambda>h k. hash_search (\<lambda>m. word_key (key m)) h (word_key k) 8"
    and "h' \<equiv> hash_add (\<lambda>m. word_key (key m)) n 8 h"
  shows "search h' k = (if key n = k then Some (Some n) else search h k) \<and> search h k \<noteq> None \<and>
    ((\<forall>m \<in> set ns. key m \<noteq> key n) \<longrightarrow> search (hash_delete n h') (key n) = Some None)"
proof -
  have t': "word_table key h' (n # ns)" unfolding h'_def using wt.holds_insert [OF t n] .
  have i: "search h' k = (if key n = k then Some (Some n) else search h k)" for k
    unfolding search_def h'_def by (rule wt.lookup_inserted [OF t n])
  moreover have "search h k \<noteq> None" unfolding search_def using wt.lookup_returns [OF t, of k] by auto
  moreover have "search (hash_delete n h') (key n) = Some None" if "\<forall>m \<in> set ns. key m \<noteq> key n"
    unfolding search_def
    by (rule wt.lookup_deleted [OF t']) (use i [of "key n"] that in \<open>auto simp: search_def\<close>)
  ultimately show ?thesis by blast
qed

theorem hash_table_laws_witness:
  "word_table (\<lambda>_. 0x5000) empty_hash [] \<and>
   hash_search (\<lambda>m. word_key 0x5000) (hash_add (\<lambda>m. word_key 0x5000) 3 8 empty_hash) (word_key 0x5000) 8 = Some (Some 3)"
proof -
  have "word_table (\<lambda>_. 0x5000) empty_hash []" by (simp add: word_table_def hash_rep_empty)
  with hash_table_laws [OF this, of 3 "0x5000"] show ?thesis by simp
qed

end
