(* ===== verification/Dyn_Array.thy ===== *)
theory Dyn_Array
  imports Mlx_Prelude "HOL-Library.Multiset"
begin

text \<open>
  The growing arrays of \<open>src/array.h\<close>, the library sort that \<open>array_sort\<close> calls,
  and the interval search that the address tables share. An array has a capacity
  \<open>item_max\<close>, a fill count \<open>item_num\<close> and, once the first \<open>malloc\<close> succeeded, a
  buffer of \<open>item_max\<close> cells, a cell being \<open>None\<close> until it is written. The result of
  \<open>malloc\<close> and \<open>realloc\<close> is an argument of \<open>array_push\<close> (\<open>False\<close>: out of memory).
\<close>

record 'a array_s =
  item_max :: nat
  item_num :: nat
  data :: "'a option list option"

definition ARRAY :: "nat \<Rightarrow> 'a array_s" where
  "ARRAY init_max = \<lparr>item_max = init_max, item_num = 0, data = None\<rparr>"

definition array_push :: "bool \<Rightarrow> 'a array_s \<Rightarrow> nat option \<times> 'a array_s" where
  "array_push mem_ok a =
     (let a = (case data a of
                 None \<Rightarrow> a\<lparr>data := (if mem_ok then Some (replicate (item_max a) None) else None)\<rparr>
               | Some cells \<Rightarrow>
                   if item_num a = item_max a then
                     a\<lparr>item_max := item_max a * 2,
                       data := (if mem_ok then Some (cells @ replicate (item_max a) None) else None)\<rparr>
                   else a)
      in case data a of
           None \<Rightarrow> (None, a)
         | Some cells \<Rightarrow> (Some (item_num a), a\<lparr>item_num := item_num a + 1\<rparr>))"

definition array_store :: "nat option \<Rightarrow> 'a \<Rightarrow> 'a array_s \<Rightarrow> 'a array_s run" where
  "array_store pos v a =
     (case (pos, data a) of
        (Some i, Some cells) \<Rightarrow>
          if i < length cells then Return (a\<lparr>data := Some (cells[i := Some v])\<rparr>) else Crash BufferOverflow
      | _ \<Rightarrow> Crash NullDeref)"

text \<open>The cells visited by \<open>array_for_each\<close>, and the last one.\<close>

definition array_items :: "'a array_s \<Rightarrow> 'a option list" where
  "array_items a = (case data a of None \<Rightarrow> [] | Some cells \<Rightarrow> take (item_num a) cells)"

definition array_last :: "'a array_s \<Rightarrow> nat option" where
  "array_last a = (if item_num a = 0 then None else Some (item_num a - 1))"

definition array_inv :: "'a array_s \<Rightarrow> 'a list \<Rightarrow> bool" where
  "array_inv a xs \<longleftrightarrow> 0 < item_max a \<and> item_num a = length xs \<and> item_num a \<le> item_max a \<and>
     (case data a of None \<Rightarrow> xs = []
      | Some cells \<Rightarrow> length cells = item_max a \<and> take (item_num a) cells = map Some xs)"

lemma array_inv_ARRAY: "0 < n \<Longrightarrow> array_inv (ARRAY n) []"
  by (simp add: array_inv_def ARRAY_def)

lemma array_inv_items: "array_inv a xs \<Longrightarrow> array_items a = map Some xs"
  by (auto simp: array_inv_def array_items_def split: option.splits)

lemma take_Suc_update: "n < length cells \<Longrightarrow> take (Suc n) (cells[n := v]) = take n cells @ [v]"
  by (simp add: take_Suc_conv_app_nth)

text \<open>A push followed by a store appends, whether or not the buffer had to grow.\<close>

lemma array_push_store:
  assumes inv: "array_inv a xs" and push: "array_push True a = (pos, a')"
  shows "\<exists>b. array_store pos v a' = Return b \<and> array_inv b (xs @ [v])"
proof (cases "data a")
  case None
  with inv push show ?thesis
    by (auto simp: array_inv_def array_push_def array_store_def Let_def take_Suc_update)
next
  case (Some cells)
  show ?thesis
  proof (cases "item_num a = item_max a")
    case True
    with inv push Some show ?thesis
      by (cases xs) (auto simp: array_inv_def array_push_def array_store_def Let_def
          take_Suc_update list_update_append)
  next
    case False
    with inv push Some show ?thesis
      by (auto simp: array_inv_def array_push_def array_store_def Let_def take_Suc_update)
  qed
qed

text \<open>
  Without memory the push returns NULL, which no caller of the program checks: the
  store that follows dereferences it.
\<close>

lemma array_push_no_memory:
  assumes "array_inv a xs" and "data a = None \<or> item_num a = item_max a"
    and "array_push False a = (pos, a')"
  shows "pos = None \<and> array_store pos v a' = Crash NullDeref"
  using assms by (auto simp: array_inv_def array_push_def array_store_def Let_def split: option.splits)

section \<open>qsort\<close>

text \<open>
  The C library's \<open>qsort\<close> as glibc implements it: a merge sort that takes from the
  left run while the comparison is not positive.
\<close>

fun merge_runs :: "('a \<Rightarrow> 'a \<Rightarrow> int) \<Rightarrow> 'a list \<Rightarrow> 'a list \<Rightarrow> 'a list" where
  "merge_runs cmp [] ys = ys"
| "merge_runs cmp xs [] = xs"
| "merge_runs cmp (x # xs) (y # ys) =
     (if cmp x y \<le> 0 then x # merge_runs cmp xs (y # ys) else y # merge_runs cmp (x # xs) ys)"

function qsort :: "('a \<Rightarrow> 'a \<Rightarrow> int) \<Rightarrow> 'a list \<Rightarrow> 'a list" where
  "qsort cmp xs =
     (if length xs \<le> 1 then xs
      else merge_runs cmp (qsort cmp (take (length xs div 2) xs)) (qsort cmp (drop (length xs div 2) xs)))"
  by pat_completeness auto
termination
  by (relation "measure (\<lambda>(cmp, xs). length xs)") auto

declare qsort.simps [simp del]

definition array_sort :: "('a \<Rightarrow> 'a \<Rightarrow> int) \<Rightarrow> 'a array_s \<Rightarrow> 'a array_s" where
  "array_sort cmp a =
     (case data a of None \<Rightarrow> a
      | Some cells \<Rightarrow> a\<lparr>data := Some (map Some (qsort cmp (map the (take (item_num a) cells))) @
            drop (item_num a) cells)\<rparr>)"

lemma mset_merge_runs: "mset (merge_runs cmp xs ys) = mset xs + mset ys"
  by (induction cmp xs ys rule: merge_runs.induct) auto

lemma set_merge_runs: "set (merge_runs cmp xs ys) = set xs \<union> set ys"
  using arg_cong [OF mset_merge_runs, of set_mset cmp xs ys] by simp

lemma mset_qsort: "mset (qsort cmp xs) = mset xs"
proof (induction cmp xs rule: qsort.induct)
  case (1 cmp xs)
  show ?case
  proof (cases "length xs \<le> 1")
    case False
    with 1 have "mset (qsort cmp xs) =
        mset (take (length xs div 2) xs) + mset (drop (length xs div 2) xs)"
      by (simp add: qsort.simps [of cmp xs] mset_merge_runs)
    then show ?thesis by (metis append_take_drop_id mset_append)
  qed (simp add: qsort.simps)
qed

lemma sorted_merge_runs:
  fixes key :: "'a \<Rightarrow> int"
  assumes "sorted (map key xs)" "sorted (map key ys)"
    and "\<And>a b. a \<in> set xs \<Longrightarrow> b \<in> set ys \<Longrightarrow> cmp a b \<le> 0 \<Longrightarrow> key a \<le> key b"
    and "\<And>a b. a \<in> set xs \<Longrightarrow> b \<in> set ys \<Longrightarrow> 0 < cmp a b \<Longrightarrow> key b \<le> key a"
  shows "sorted (map key (merge_runs cmp xs ys))"
  using assms
proof (induction cmp xs ys rule: merge_runs.induct)
  case (3 cmp x xs y ys)
  show ?case
  proof (cases "cmp x y \<le> 0")
    case True
    have "sorted (map key (merge_runs cmp xs (y # ys)))"
      using True 3 by simp
    moreover have "key x \<le> key y" using True 3(5) by simp
    ultimately show ?thesis using True 3(3,4) by (auto simp: set_merge_runs)
  next
    case False
    have "sorted (map key (merge_runs cmp (x # xs) ys))"
      using False 3 by simp
    moreover have "key y \<le> key x" using False 3(6) by simp
    ultimately show ?thesis using False 3(3,4) by (auto simp: set_merge_runs)
  qed
qed auto

lemma sorted_qsort:
  fixes key :: "'a \<Rightarrow> int"
  assumes "\<And>a b. a \<in> set xs \<Longrightarrow> b \<in> set xs \<Longrightarrow> cmp a b \<le> 0 \<Longrightarrow> key a \<le> key b"
    and "\<And>a b. a \<in> set xs \<Longrightarrow> b \<in> set xs \<Longrightarrow> 0 < cmp a b \<Longrightarrow> key b \<le> key a"
  shows "sorted (map key (qsort cmp xs))"
  using assms
proof (induction cmp xs rule: qsort.induct)
  case (1 cmp xs)
  let ?l = "take (length xs div 2) xs" and ?r = "drop (length xs div 2) xs"
  have set_qsort: "set (qsort cmp zs) = set zs" for zs :: "'a list"
    using arg_cong [OF mset_qsort, of set_mset] by simp
  show ?case
  proof (cases "length xs \<le> 1")
    case True
    then show ?thesis by (cases xs) (auto simp: qsort.simps)
  next
    case False
    have sub: "set ?l \<subseteq> set xs" "set ?r \<subseteq> set xs"
      by (auto dest: in_set_takeD in_set_dropD)
    have "sorted (map key (qsort cmp ?l))"
      by (rule 1(1) [OF False]) (use 1(3,4) sub(1) in \<open>meson subsetD\<close>)+
    moreover have "sorted (map key (qsort cmp ?r))"
      by (rule 1(2) [OF False]) (use 1(3,4) sub(2) in \<open>meson subsetD\<close>)+
    ultimately have "sorted (map key (merge_runs cmp (qsort cmp ?l) (qsort cmp ?r)))"
      using 1(3,4) sub by (intro sorted_merge_runs) (auto simp: set_qsort subset_iff)
    with False show ?thesis by (simp add: qsort.simps [of cmp xs])
  qed
qed

text \<open>
  What the callers of \<open>array_sort\<close> rely on: a permutation, ordered by a key that the
  comparison follows. A comparison that never returns 0, as the two of the program's
  address tables, is admitted.
\<close>

locale key_sort =
  fixes sort_by :: "('a \<Rightarrow> 'a \<Rightarrow> int) \<Rightarrow> 'a list \<Rightarrow> 'a list"
  assumes sort_perm: "mset (sort_by cmp xs) = mset xs"
    and sort_sorted: "(\<And>a b. a \<in> set xs \<Longrightarrow> b \<in> set xs \<Longrightarrow> cmp a b \<le> 0 \<Longrightarrow> key a \<le> key b) \<Longrightarrow>
      (\<And>a b. a \<in> set xs \<Longrightarrow> b \<in> set xs \<Longrightarrow> 0 < cmp a b \<Longrightarrow> key b \<le> (key a :: int)) \<Longrightarrow>
      sorted (map key (sort_by cmp xs))"
begin

lemma sort_set: "set (sort_by cmp xs) = set xs"
  using arg_cong [OF sort_perm, of set_mset] by simp

lemma sort_length: "length (sort_by cmp xs) = length xs"
  using arg_cong [OF sort_perm, of size] by simp

lemma sort_less_key:
  assumes "\<And>a b. cmp a b = (if key a < (key b :: int) then -1 else 1)"
  shows "sorted (map key (sort_by cmp xs))"
  using assms by (intro sort_sorted) (auto split: if_splits)

end

interpretation qs: key_sort qsort
  by unfold_locales (rule mset_qsort, rule sorted_qsort)

lemma array_inv_sort:
  assumes "array_inv a xs"
  shows "array_inv (array_sort cmp a) (qsort cmp xs)"
proof (cases "data a")
  case None
  with assms show ?thesis by (simp add: array_inv_def array_sort_def qsort.simps)
next
  case (Some cells)
  with assms have "take (item_num a) cells = map Some xs"
    by (auto simp: array_inv_def)
  then have "map the (take (item_num a) cells) = xs" by (simp add: comp_def)
  with assms Some show ?thesis
    by (simp add: array_inv_def array_sort_def qs.sort_length)
qed

section \<open>Interval search\<close>

text \<open>
  The binary searches of \<open>addr_maps.c\<close>, \<open>symtab.c\<close> and \<open>debug_line.c\<close> are the same
  loop over different tables: a position is skipped to the left when the wanted
  address lies below it, to the right when it lies above it, and is the answer
  otherwise.
\<close>

locale interval_search =
  fixes loop :: "int \<Rightarrow> int \<Rightarrow> 'r"
    and below above :: "int \<Rightarrow> bool"
    and found :: "int \<Rightarrow> 'r"
    and missing :: 'r
  assumes loop_eq: "loop mn mx =
     (if mn \<le> mx then
        (if below ((mn + mx) div 2) then loop mn ((mn + mx) div 2 - 1)
         else if above ((mn + mx) div 2) then loop ((mn + mx) div 2 + 1) mx
         else found ((mn + mx) div 2))
      else missing)"
begin

lemma search_steps:
  assumes "mn \<le> mx"
  shows "below ((mn + mx) div 2) \<Longrightarrow> loop mn mx = loop mn ((mn + mx) div 2 - 1)"
    and "\<not> below ((mn + mx) div 2) \<Longrightarrow> above ((mn + mx) div 2) \<Longrightarrow> loop mn mx = loop ((mn + mx) div 2 + 1) mx"
    and "\<not> below ((mn + mx) div 2) \<Longrightarrow> \<not> above ((mn + mx) div 2) \<Longrightarrow> loop mn mx = found ((mn + mx) div 2)"
  using assms by (subst loop_eq, simp)+

lemma search_empty: "mx < mn \<Longrightarrow> loop mn mx = missing"
  by (subst loop_eq) simp

lemma search_sound:
  "loop mn mx = missing \<or>
   (\<exists>m. mn \<le> m \<and> m \<le> mx \<and> \<not> below m \<and> \<not> above m \<and> loop mn mx = found m)"
proof (induction "nat (mx - mn + 1)" arbitrary: mn mx rule: less_induct)
  case less
  let ?m = "(mn + mx) div 2"
  show ?case
  proof (cases "mn \<le> mx")
    case False
    then show ?thesis by (simp add: search_empty)
  next
    case True
    then have mid: "mn \<le> ?m" "?m \<le> mx" by auto
    consider "below ?m" | "\<not> below ?m" "above ?m" | "\<not> below ?m" "\<not> above ?m" by blast
    then show ?thesis
    proof cases
      case 1
      have "nat (?m - 1 - mn + 1) < nat (mx - mn + 1)" using mid by linarith
      from less [OF this] show ?thesis
        unfolding search_steps(1) [OF True 1] using mid by fastforce
    next
      case 2
      have "nat (mx - (?m + 1) + 1) < nat (mx - mn + 1)" using mid by linarith
      from less [OF this] show ?thesis
        unfolding search_steps(2) [OF True 2] using mid by fastforce
    next
      case 3
      then show ?thesis
        unfolding search_steps(3) [OF True 3] using mid by blast
    qed
  qed
qed

lemma search_complete:
  assumes "mn \<le> k" "k \<le> mx" "\<not> below k" "\<not> above k"
    and mono_below: "\<And>i j. mn \<le> i \<Longrightarrow> i \<le> j \<Longrightarrow> j \<le> mx \<Longrightarrow> below i \<Longrightarrow> below j"
    and mono_above: "\<And>i j. mn \<le> i \<Longrightarrow> i \<le> j \<Longrightarrow> j \<le> mx \<Longrightarrow> above j \<Longrightarrow> above i"
  shows "\<exists>m. mn \<le> m \<and> m \<le> mx \<and> \<not> below m \<and> \<not> above m \<and> loop mn mx = found m"
  using assms
proof (induction "nat (mx - mn + 1)" arbitrary: mn mx rule: less_induct)
  case less
  let ?m = "(mn + mx) div 2"
  have le: "mn \<le> mx" using less.prems(1,2) by simp
  then have mid: "mn \<le> ?m" "?m \<le> mx" by auto
  consider "below ?m" | "\<not> below ?m" "above ?m" | "\<not> below ?m" "\<not> above ?m" by blast
  then show ?case
  proof cases
    case 1
    have "\<not> ?m \<le> k"
      using less.prems(2,3) less.prems(5) [of ?m k] mid(1) 1 by blast
    then have k: "k \<le> ?m - 1" by simp
    have "nat (?m - 1 - mn + 1) < nat (mx - mn + 1)" using mid by linarith
    then have "\<exists>m. mn \<le> m \<and> m \<le> ?m - 1 \<and> \<not> below m \<and> \<not> above m \<and> loop mn (?m - 1) = found m"
    proof (rule less.hyps [OF _ less.prems(1) k less.prems(3,4)])
      fix i j assume "mn \<le> i" "i \<le> j" "j \<le> ?m - 1"
      then show "below i \<Longrightarrow> below j" "above j \<Longrightarrow> above i"
        using less.prems(5) [of i j] less.prems(6) [of i j] mid by linarith+
    qed
    then show ?thesis
      unfolding search_steps(1) [OF le 1] using mid by fastforce
  next
    case 2
    have "\<not> k \<le> ?m"
      using less.prems(1,4) less.prems(6) [of k ?m] mid(2) 2(2) by blast
    then have k: "?m + 1 \<le> k" by simp
    have "nat (mx - (?m + 1) + 1) < nat (mx - mn + 1)" using mid by linarith
    then have "\<exists>m. ?m + 1 \<le> m \<and> m \<le> mx \<and> \<not> below m \<and> \<not> above m \<and> loop (?m + 1) mx = found m"
    proof (rule less.hyps [OF _ k less.prems(2-4)])
      fix i j assume "?m + 1 \<le> i" "i \<le> j" "j \<le> mx"
      then show "below i \<Longrightarrow> below j" "above j \<Longrightarrow> above i"
        using less.prems(5) [of i j] less.prems(6) [of i j] mid by linarith+
    qed
    then obtain m where "?m + 1 \<le> m" "m \<le> mx" "\<not> below m" "\<not> above m" "loop (?m + 1) mx = found m"
      by blast
    moreover from this(1) have "mn \<le> m" using mid by linarith
    ultimately show ?thesis
      unfolding search_steps(2) [OF le 2] by blast
  next
    case 3
    then show ?thesis
      unfolding search_steps(3) [OF le 3] using mid by blast
  qed
qed

lemma search_missing:
  assumes "loop mn mx = missing" and "\<And>m. found m \<noteq> missing" and "mn \<le> k" "k \<le> mx"
    and "\<And>i j. mn \<le> i \<Longrightarrow> i \<le> j \<Longrightarrow> j \<le> mx \<Longrightarrow> below i \<Longrightarrow> below j"
    and "\<And>i j. mn \<le> i \<Longrightarrow> i \<le> j \<Longrightarrow> j \<le> mx \<Longrightarrow> above j \<Longrightarrow> above i"
  shows "below k \<or> above k"
proof (rule ccontr)
  assume "\<not> (below k \<or> above k)"
  then have "\<exists>m. mn \<le> m \<and> m \<le> mx \<and> \<not> below m \<and> \<not> above m \<and> loop mn mx = found m"
    using assms(3-6) by (intro search_complete [of mn k mx]) simp_all
  with assms(1,2) show False by metis
qed

text \<open>The same facts for a whole table of \<open>n\<close> entries.\<close>

lemma table_sound:
  "loop 0 (int n - 1) = missing \<or>
   (\<exists>m < n. \<not> below (int m) \<and> \<not> above (int m) \<and> loop 0 (int n - 1) = found (int m))"
proof (cases "loop 0 (int n - 1) = missing")
  case False
  with search_sound [of 0 "int n - 1"] obtain m where
    "0 \<le> m" "m \<le> int n - 1" "\<not> below m" "\<not> above m" "loop 0 (int n - 1) = found m" by blast
  then show ?thesis by (intro disjI2 exI [of _ "nat m"]) auto
qed simp

lemma table_hit:
  assumes "k < n" "\<not> below (int k)" "\<not> above (int k)"
    and "\<And>i j. i \<le> j \<Longrightarrow> j < n \<Longrightarrow> below (int i) \<Longrightarrow> below (int j)"
    and "\<And>i j. i \<le> j \<Longrightarrow> j < n \<Longrightarrow> above (int j) \<Longrightarrow> above (int i)"
  shows "\<exists>m < n. \<not> below (int m) \<and> \<not> above (int m) \<and> loop 0 (int n - 1) = found (int m)"
proof -
  have "\<exists>m. 0 \<le> m \<and> m \<le> int n - 1 \<and> \<not> below m \<and> \<not> above m \<and> loop 0 (int n - 1) = found m"
  proof (rule search_complete [of 0 "int k"])
    fix i j assume "0 \<le> i" "i \<le> j" "j \<le> int n - 1"
    then show "below i \<Longrightarrow> below j" "above j \<Longrightarrow> above i"
      using assms(4) [of "nat i" "nat j"] assms(5) [of "nat i" "nat j"] by auto
  qed (use assms(1-3) in auto)
  then obtain m where "0 \<le> m" "m \<le> int n - 1" "\<not> below m" "\<not> above m" "loop 0 (int n - 1) = found m"
    by blast
  then show ?thesis by (intro exI [of _ "nat m"]) auto
qed

end

end
