(* ===== verification/Addr_Maps.thy ===== *)
theory Addr_Maps
  imports Dyn_Array
begin

text \<open>
  \<open>src/addr_maps.c\<close>: the table of the target's executable mappings, and the
  search that names the library an address belongs to. \<open>name\<close> is a buffer of 100
  characters; writing past it is a \<open>Crash BufferOverflow\<close>.
\<close>

record addr_map_s =
  am_start :: u64
  am_end :: u64
  am_name :: string

definition addr_map_name :: "string \<Rightarrow> string run" where
  "addr_map_name path =
     (case strchr_last path (CHR ''/'') of
        None \<Rightarrow> Crash NullDeref
      | Some p \<Rightarrow>
          (case strstr (drop p path) ''.so'' of
             None \<Rightarrow> Return (take 99 (drop (p + 1) path))
           | Some d \<Rightarrow>
               if d + 2 < 100 then Return (take (d + 2) (drop (p + 1) path))
               else Crash BufferOverflow))"

definition addr_maps_build_file ::
  "bool \<Rightarrow> string \<Rightarrow> u64 \<Rightarrow> u64 \<Rightarrow> addr_map_s array_s \<Rightarrow> addr_map_s array_s run" where
  "addr_maps_build_file mem_ok path start end g_addr_maps =
     (case array_push mem_ok g_addr_maps of (am, a) \<Rightarrow>
        if am = None then Crash NullDeref
        else run_bind (addr_map_name path) (\<lambda>name.
          array_store am \<lparr>am_start = start, am_end = end, am_name = name\<rparr> a))"

fun addr_maps_build ::
  "(nat \<Rightarrow> bool) \<Rightarrow> (string \<times> u64 \<times> u64) list \<Rightarrow> addr_map_s array_s \<Rightarrow> addr_map_s array_s run" where
  "addr_maps_build mem_ok [] a = Return a"
| "addr_maps_build mem_ok ((path, start, end) # ms) a =
     run_bind (addr_maps_build_file (mem_ok (item_num a)) path start end a) (addr_maps_build mem_ok ms)"

function addr_maps_loop :: "u64 \<Rightarrow> addr_map_s list \<Rightarrow> int \<Rightarrow> int \<Rightarrow> string" where
  "addr_maps_loop address maps mn mx =
     (if mn \<le> mx then
        let mid = (mn + mx) div 2; am = maps ! nat mid
        in if address < am_start am then addr_maps_loop address maps mn (mid - 1)
           else if address > am_end am then addr_maps_loop address maps (mid + 1) mx
           else am_name am
      else ''??'')"
  by pat_completeness auto
termination
  by (relation "measure (\<lambda>(address, maps, mn, mx). nat (mx - mn + 1))") auto

declare addr_maps_loop.simps [simp del]

definition addr_maps_search :: "u64 \<Rightarrow> addr_map_s list \<Rightarrow> string" where
  "addr_maps_search address maps = addr_maps_loop address maps 0 (int (length maps) - 1)"

interpretation am: interval_search "addr_maps_loop a maps"
  "\<lambda>m. a < am_start (maps ! nat m)" "\<lambda>m. a > am_end (maps ! nat m)"
  "\<lambda>m. am_name (maps ! nat m)" "''??''" for a maps
  by unfold_locales (subst addr_maps_loop.simps, simp add: Let_def)

text \<open>
  The kernel lists mappings in ascending order without overlap; the end of a mapping
  is the first address after it.
\<close>

definition maps_ordered :: "addr_map_s list \<Rightarrow> bool" where
  "maps_ordered maps \<longleftrightarrow> (\<forall>m \<in> set maps. am_start m < am_end m) \<and>
     sorted_wrt (\<lambda>m n. am_end m \<le> am_start n) maps"

lemma maps_ordered_mono:
  assumes "maps_ordered maps" and "i \<le> j" and "j < length maps"
  shows "am_start (maps ! i) \<le> am_start (maps ! j)" and "am_end (maps ! i) \<le> am_end (maps ! j)"
proof -
  have "i = j \<or> am_end (maps ! i) \<le> am_start (maps ! j)"
    using assms by (cases "i = j") (auto simp: maps_ordered_def sorted_wrt_iff_nth_less)
  moreover have "am_start (maps ! i) < am_end (maps ! i)" "am_start (maps ! j) < am_end (maps ! j)"
    using assms by (auto simp: maps_ordered_def)
  ultimately show "am_start (maps ! i) \<le> am_start (maps ! j)" "am_end (maps ! i) \<le> am_end (maps ! j)"
    by auto
qed

lemma addr_maps_search_hit:
  assumes ord: "maps_ordered maps" and k: "k < length maps"
    and "am_start (maps ! k) \<le> a" "a \<le> am_end (maps ! k)"
  shows "\<exists>m < length maps. am_start (maps ! m) \<le> a \<and> a \<le> am_end (maps ! m) \<and>
     addr_maps_search a maps = am_name (maps ! m)"
proof -
  note mono = maps_ordered_mono [OF ord]
  have "\<exists>m < length maps. \<not> a < am_start (maps ! nat (int m)) \<and> \<not> am_end (maps ! nat (int m)) < a \<and>
      addr_maps_loop a maps 0 (int (length maps) - 1) = am_name (maps ! nat (int m))"
    by (rule am.table_hit [OF k])
       (use assms(3,4) in \<open>auto simp: not_less dest: mono intro: less_le_trans le_less_trans\<close>)
  then show ?thesis by (auto simp: addr_maps_search_def not_less)
qed

text \<open>Only the mapping right before can have \<open>a\<close> as its end, too.\<close>

lemma maps_ordered_unique:
  assumes ord: "maps_ordered maps" and k: "k < length maps" and m: "m < length maps"
    and "am_start (maps ! k) \<le> a" "a < am_end (maps ! k)"
    and "am_start (maps ! m) \<le> a" "a \<le> am_end (maps ! m)"
  shows "m = k \<or> a = am_start (maps ! k) \<and> Suc m = k \<and> am_end (maps ! m) = a"
proof -
  have step: "am_end (maps ! i) \<le> am_start (maps ! j)" if "i < j" "j < length maps" for i j
    using ord that by (auto simp: maps_ordered_def sorted_wrt_iff_nth_less)
  consider "m = k" | "k < m" | "m < k" by linarith
  then show ?thesis
  proof cases
    case 2
    from step [OF 2 m] assms(5,6) show ?thesis by auto
  next
    case 3
    from step [OF 3 k] assms(4,7) have a: "a = am_start (maps ! k)" "am_end (maps ! m) = a" by auto
    moreover have "Suc m = k"
    proof (rule ccontr)
      assume "Suc m \<noteq> k"
      with 3 have "Suc m < k" by simp
      with step [of m "Suc m"] step [of "Suc m" k] k have "am_end (maps ! m) \<le> am_start (maps ! Suc m)"
        "am_end (maps ! Suc m) \<le> am_start (maps ! k)" by auto
      moreover have "am_start (maps ! Suc m) < am_end (maps ! Suc m)"
        using ord \<open>Suc m < k\<close> k by (auto simp: maps_ordered_def)
      ultimately show False using a by auto
    qed
    ultimately show ?thesis by simp
  qed simp
qed

text \<open>C36 (addr_maps_search_inside): an address of a mapping (from its start on, before its end) is named by the
  file of that mapping, with one exception: the first address of a mapping that begins where the one before ends
  may be named by that one's file. So every address strictly inside a mapping gets its name.\<close>

theorem addr_maps_search_inside:
  assumes "maps_ordered maps" and "k < length maps"
    and "am_start (maps ! k) \<le> a" and "a < am_end (maps ! k)"
  shows "addr_maps_search a maps = am_name (maps ! k) \<or>
    a = am_start (maps ! k) \<and> 0 < k \<and> am_end (maps ! (k - 1)) = a \<and> addr_maps_search a maps = am_name (maps ! (k - 1))"
proof -
  obtain m where m: "m < length maps" "am_start (maps ! m) \<le> a" "a \<le> am_end (maps ! m)"
    "addr_maps_search a maps = am_name (maps ! m)"
    using addr_maps_search_hit [OF assms(1-3) order_less_imp_le [OF assms(4)]] by auto
  from maps_ordered_unique [OF assms(1,2) m(1) assms(3,4) m(2,3)] m(4) show ?thesis by auto
qed

definition two_maps :: "addr_map_s list" where
  "two_maps = [\<lparr>am_start = 0x1000, am_end = 0x2000, am_name = ''prog''\<rparr>,
               \<lparr>am_start = 0x2000, am_end = 0x3000, am_name = ''libc.so''\<rparr>]"

theorem addr_maps_search_inside_witness:
  "maps_ordered two_maps \<and> addr_maps_search 0x2800 two_maps = ''libc.so'' \<and> addr_maps_search 0x1000 two_maps = ''prog''"
proof -
  have o: "maps_ordered two_maps" by (simp add: maps_ordered_def two_maps_def)
  have "addr_maps_search 0x2800 two_maps = am_name (two_maps ! 1)"
    using addr_maps_search_inside [OF o, of 1 "0x2800"] by (simp add: two_maps_def)
  moreover have "addr_maps_search 0x1000 two_maps = am_name (two_maps ! 0)"
    using addr_maps_search_inside [OF o, of 0 "0x1000"] by (simp add: two_maps_def)
  ultimately show ?thesis using o by (simp add: two_maps_def)
qed

text \<open>Fact (addr_maps_search_outside): an address that lies in no mapping, the end of a
  mapping counted in, is printed as \<open>??\<close>.\<close>

theorem addr_maps_search_outside:
  assumes "\<forall>m \<in> set maps. a < am_start m \<or> am_end m < a"
  shows "addr_maps_search a maps = ''??''"
proof -
  have "\<not> (m < length maps \<and> \<not> a < am_start (maps ! nat (int m)) \<and> \<not> am_end (maps ! nat (int m)) < a)" for m
    using assms nth_mem [of m maps] by auto
  then show ?thesis
    using am.table_sound [of a maps "length maps"] by (auto simp: addr_maps_search_def)
qed

theorem addr_maps_search_outside_witness:
  "length two_maps = 2 \<and> addr_maps_search 0x4000 two_maps = ''??''"
proof -
  have "\<forall>m \<in> set two_maps. (0x4000 :: u64) < am_start m \<or> am_end m < 0x4000"
    by (simp add: two_maps_def)
  from addr_maps_search_outside [OF this] show ?thesis by (simp add: two_maps_def)
qed

text \<open>Fact (addr_maps_boundary): the comparison with \<open>end\<close> is inclusive although \<open>end\<close> is the
  first address after the mapping. The first address of \<open>libc.so\<close>, mapped right behind
  \<open>prog\<close>, is named \<open>prog\<close>.\<close>

theorem addr_maps_boundary:
  "am_start (two_maps ! 1) = 0x2000 \<and> am_name (two_maps ! 1) = ''libc.so'' \<and>
   addr_maps_search 0x2000 two_maps = ''prog''"
  by (simp add: two_maps_def addr_maps_search_def addr_maps_loop.simps Let_def)

end
