(* ===== verification/Sym_Tab.thy ===== *)
theory Sym_Tab
  imports Dyn_Array
begin

text \<open>
  \<open>src/symtab.c\<close>: collecting the function symbols of an ELF file, sorting them by
  address, and the two searches. What libelf returns (section headers, symbols,
  strings, program headers) is an argument of the definitions, and so is
  \<open>mem_ok\<close>, which tells for each fill count whether the array can get memory.
\<close>

record symbol_s =
  sym_address :: u64
  sym_size :: u64
  sym_weak :: bool
  sym_name :: string

record elf_sym =
  st_name :: nat
  st_info :: u8
  st_shndx :: nat
  st_value :: u64
  st_size :: u64

record elf_section =
  sh_type :: nat
  sh_link :: nat
  d_size :: nat
  syms :: "elf_sym list"

definition SHT_SYMTAB :: nat where "SHT_SYMTAB = 2"
definition SHT_DYNSYM :: nat where "SHT_DYNSYM = 11"
definition SHN_UNDEF :: nat where "SHN_UNDEF = 0"
definition STB_WEAK :: nat where "STB_WEAK = 2"
definition STB_NUM :: nat where "STB_NUM = 3"
definition STT_FUNC :: nat where "STT_FUNC = 2"
definition PT_LOAD :: nat where "PT_LOAD = 1"
definition ET_DYN :: nat where "ET_DYN = 3"

definition GELF_ST_BIND :: "u8 \<Rightarrow> nat" where
  "GELF_ST_BIND info = unat (drop_bit 4 info)"

definition GELF_ST_TYPE :: "u8 \<Rightarrow> nat" where
  "GELF_ST_TYPE info = unat (info AND 15)"

definition sym_skipped :: "elf_sym \<Rightarrow> bool" where
  "sym_skipped esym \<longleftrightarrow> st_value esym = 0 \<or> st_size esym = 0 \<or> st_shndx esym = SHN_UNDEF \<or>
     GELF_ST_BIND (st_info esym) = STB_NUM \<or> GELF_ST_TYPE (st_info esym) \<noteq> STT_FUNC"

definition sym_entry :: "(nat \<Rightarrow> nat \<Rightarrow> string) \<Rightarrow> nat \<Rightarrow> u64 \<Rightarrow> u64 \<Rightarrow> elf_sym \<Rightarrow> symbol_s" where
  "sym_entry elf_strptr link offset base_addr esym =
     \<lparr>sym_address = st_value esym - base_addr + offset, sym_size = st_size esym,
      sym_weak = (GELF_ST_BIND (st_info esym) = STB_WEAK),
      sym_name = elf_strptr link (st_name esym)\<rparr>"

fun symtab_section_loop ::
  "(nat \<Rightarrow> bool) \<Rightarrow> (nat \<Rightarrow> nat \<Rightarrow> string) \<Rightarrow> nat \<Rightarrow> u64 \<Rightarrow> u64 \<Rightarrow> elf_sym list \<Rightarrow> int \<Rightarrow>
     symbol_s array_s \<Rightarrow> (int \<times> symbol_s array_s) run" where
  "symtab_section_loop mem_ok str link offset base_addr [] cnt tab = Return (cnt, tab)"
| "symtab_section_loop mem_ok str link offset base_addr (esym # es) cnt tab =
     (if sym_skipped esym then symtab_section_loop mem_ok str link offset base_addr es cnt tab
      else (case array_push (mem_ok (item_num tab)) tab of (pos, tab) \<Rightarrow>
        run_bind (array_store pos (sym_entry str link offset base_addr esym) tab) (\<lambda>tab.
          symtab_section_loop mem_ok str link offset base_addr es (cnt + 1) tab)))"

definition symtab_build_section ::
  "(nat \<Rightarrow> bool) \<Rightarrow> (nat \<Rightarrow> nat \<Rightarrow> string) \<Rightarrow> elf_section option \<Rightarrow> bool \<Rightarrow> u64 \<Rightarrow> u64 \<Rightarrow>
     symbol_s array_s \<Rightarrow> (int \<times> symbol_s array_s) run" where
  "symtab_build_section mem_ok elf_strptr shdr has_data offset base_addr tab =
     (case shdr of
        None \<Rightarrow> Return (0, tab)
      | Some sh \<Rightarrow>
          if sh_type sh \<noteq> SHT_SYMTAB \<and> sh_type sh \<noteq> SHT_DYNSYM then Return (0, tab)
          else if \<not> has_data \<or> d_size sh = 0 then Return (0, tab)
          else symtab_section_loop mem_ok elf_strptr (sh_link sh) offset base_addr (syms sh) 0 tab)"

text \<open>The program headers as pairs of \<open>p_type\<close> and \<open>p_vaddr\<close>.\<close>

fun symtab_elf_base :: "(nat \<times> u64) list \<Rightarrow> u64" where
  "symtab_elf_base [] = 0"
| "symtab_elf_base ((p_type, p_vaddr) # hs) =
     (if p_type = PT_LOAD then p_vaddr else symtab_elf_base hs)"

text \<open>
  An ELF file as libelf presents it: the type of its header, its program headers, its
  sections (a header that cannot be read is \<open>None\<close>; the flag says whether
  \<open>elf_getdata\<close> succeeds) and its string tables.
\<close>

record elf_file =
  e_type :: nat
  phdrs :: "(nat \<times> u64) list"
  sections :: "(elf_section option \<times> bool) list"
  elf_strptr :: "nat \<Rightarrow> nat \<Rightarrow> string"

fun symtab_sections_loop ::
  "(nat \<Rightarrow> bool) \<Rightarrow> (nat \<Rightarrow> nat \<Rightarrow> string) \<Rightarrow> u64 \<Rightarrow> u64 \<Rightarrow> (elf_section option \<times> bool) list \<Rightarrow> int \<Rightarrow>
     symbol_s array_s \<Rightarrow> (int \<times> symbol_s array_s) run" where
  "symtab_sections_loop mem_ok str offset base_addr [] cnt tab = Return (cnt, tab)"
| "symtab_sections_loop mem_ok str offset base_addr ((sh, has_data) # ss) cnt tab =
     run_bind (symtab_build_section mem_ok str sh has_data offset base_addr tab) (\<lambda>(c, tab).
       symtab_sections_loop mem_ok str offset base_addr ss (cnt + c) tab)"

text \<open>
  \<open>open_file\<close> gives \<open>None\<close> when the file cannot be opened, \<open>Some None\<close> when libelf
  does not accept it.
\<close>

definition symtab_build_file ::
  "(nat \<Rightarrow> bool) \<Rightarrow> (string \<Rightarrow> elf_file option option) \<Rightarrow> string \<Rightarrow> u64 \<Rightarrow> u64 \<Rightarrow>
     symbol_s array_s \<Rightarrow> (int \<times> symbol_s array_s) run" where
  "symtab_build_file mem_ok open_file path start end tab =
     (case open_file path of
        None \<Rightarrow> Return (-1, tab)
      | Some None \<Rightarrow> Return (-1, tab)
      | Some (Some elf) \<Rightarrow>
          (let (offset, base_addr) =
                 (if e_type elf = ET_DYN then (start, symtab_elf_base (phdrs elf)) else (0, 0))
           in symtab_sections_loop mem_ok (elf_strptr elf) offset base_addr (sections elf) 0 tab))"

definition symbol_cmp :: "symbol_s \<Rightarrow> symbol_s \<Rightarrow> int" where
  "symbol_cmp sa sb = (if sym_address sa < sym_address sb then -1 else 1)"

definition symtab_finish :: "symbol_s array_s \<Rightarrow> symbol_s array_s" where
  "symtab_finish tab = array_sort symbol_cmp tab"

function symtab_loop :: "u64 \<Rightarrow> symbol_s list \<Rightarrow> int \<Rightarrow> int \<Rightarrow> (string \<times> cint) option" where
  "symtab_loop address table mn mx =
     (if mn \<le> mx then
        let mid = (mn + mx) div 2; s = table ! nat mid
        in if address < sym_address s then symtab_loop address table mn (mid - 1)
           else if address \<ge> sym_address s + sym_size s then symtab_loop address table (mid + 1) mx
           else Some (sym_name s, int_of_size (address - sym_address s))
      else None)"
  by pat_completeness auto
termination
  by (relation "measure (\<lambda>(address, table, mn, mx). nat (mx - mn + 1))") auto

declare symtab_loop.simps [simp del]

definition symtab_by_address :: "u64 \<Rightarrow> symbol_s list \<Rightarrow> (string \<times> cint) option" where
  "symtab_by_address address table = symtab_loop address table 0 (int (length table) - 1)"

fun symtab_name_loop :: "string \<Rightarrow> symbol_s list \<Rightarrow> u64 \<Rightarrow> u64" where
  "symtab_name_loop name [] address = address"
| "symtab_name_loop name (s # ss) address =
     (if sym_name s = name then
        if \<not> sym_weak s then sym_address s
        else symtab_name_loop name ss (if address = 0 then sym_address s else address)
      else symtab_name_loop name ss address)"

definition symtab_by_name :: "string \<Rightarrow> symbol_s list \<Rightarrow> u64" where
  "symtab_by_name name table = symtab_name_loop name table 0"

section \<open>Building\<close>

lemma symtab_section_loop_array:
  assumes "array_inv tab xs"
  shows "\<exists>tab'. symtab_section_loop (\<lambda>_. True) str link off base es cnt tab =
       Return (cnt + int (length (filter (Not \<circ> sym_skipped) es)), tab') \<and>
     array_inv tab' (xs @ map (sym_entry str link off base) (filter (Not \<circ> sym_skipped) es))"
  using assms
proof (induction es arbitrary: tab xs cnt)
  case (Cons e es)
  show ?case
  proof (cases "sym_skipped e")
    case True
    with Cons show ?thesis by simp
  next
    case False
    obtain pos t where push: "array_push True tab = (pos, t)" by fastforce
    from array_push_store [OF Cons.prems push] obtain b where
      b: "array_store pos (sym_entry str link off base e) t = Return b"
      "array_inv b (xs @ [sym_entry str link off base e])" by blast
    from Cons.IH [OF b(2), of "cnt + 1"] push b(1) False show ?thesis by (simp add: algebra_simps)
  qed
qed simp

interpretation st: interval_search "symtab_loop a table"
  "\<lambda>m. a < sym_address (table ! nat m)"
  "\<lambda>m. a \<ge> sym_address (table ! nat m) + sym_size (table ! nat m)"
  "\<lambda>m. Some (sym_name (table ! nat m), int_of_size (a - sym_address (table ! nat m)))"
  None for a table
  by unfold_locales (subst symtab_loop.simps, simp add: Let_def)

section \<open>Correctness\<close>

text \<open>Fact (symtab_finish_sorted): after the sort the table is ordered by address and is a
  permutation of what was collected, although \<open>symbol_cmp\<close> answers 1 both ways for
  two symbols of the same address.\<close>

theorem symtab_finish_sorted:
  assumes "array_inv tab xs"
  shows "\<exists>ys. array_inv (symtab_finish tab) ys \<and> mset ys = mset xs \<and> sorted (map sym_address ys)"
proof (intro exI conjI)
  show "array_inv (symtab_finish tab) (qsort symbol_cmp xs)"
    unfolding symtab_finish_def using assms by (rule array_inv_sort)
  show "mset (qsort symbol_cmp xs) = mset xs" by (rule qs.sort_perm)
  have "sorted (map (\<lambda>s. uint (sym_address s)) (qsort symbol_cmp xs))"
    by (rule qs.sort_less_key) (simp add: symbol_cmp_def word_less_def)
  then show "sorted (map sym_address (qsort symbol_cmp xs))"
    by (simp add: sorted_wrt_map word_le_def)
qed

definition two_syms :: "symbol_s list" where
  "two_syms = [\<lparr>sym_address = 0x500, sym_size = 16, sym_weak = True, sym_name = ''free''\<rparr>,
               \<lparr>sym_address = 0x400, sym_size = 32, sym_weak = False, sym_name = ''malloc''\<rparr>,
               \<lparr>sym_address = 0x500, sym_size = 16, sym_weak = False, sym_name = ''cfree''\<rparr>]"

definition two_syms_array :: "symbol_s array_s" where
  "two_syms_array = \<lparr>item_max = 4, item_num = 3, data = Some (map Some two_syms @ [None])\<rparr>"

theorem symtab_finish_sorted_witness:
  "array_inv two_syms_array two_syms \<and>
   (\<exists>ys. array_inv (symtab_finish two_syms_array) ys \<and> mset ys = mset two_syms \<and>
      sorted (map sym_address ys))"
proof -
  have "array_inv two_syms_array two_syms"
    by (simp add: array_inv_def two_syms_array_def two_syms_def)
  from symtab_finish_sorted [OF this] this show ?thesis by blast
qed

text \<open>C33 (symtab_by_address_sound): whatever the table looks like, a name that is returned
  is the name of a symbol whose interval holds the address, with the offset in it.\<close>

theorem symtab_by_address_sound:
  assumes "symtab_by_address a table = Some (name, off)"
  shows "\<exists>s \<in> set table. sym_name s = name \<and> off = int_of_size (a - sym_address s) \<and>
     sym_address s \<le> a \<and> a < sym_address s + sym_size s"
proof -
  from st.table_sound [of a table "length table"] assms obtain m where "m < length table"
    "\<not> a < sym_address (table ! m)" "\<not> a \<ge> sym_address (table ! m) + sym_size (table ! m)"
    "name = sym_name (table ! m)" "off = int_of_size (a - sym_address (table ! m))"
    by (auto simp: symtab_by_address_def)
  then show ?thesis by (intro bexI [of _ "table ! m"]) (auto simp: not_less not_le)
qed

theorem symtab_by_address_sound_witness:
  "symtab_by_address 0x504 [two_syms ! 1, two_syms ! 2] = Some (''cfree'', 4) \<and>
   (\<exists>s \<in> set [two_syms ! 1, two_syms ! 2]. sym_name s = ''cfree'' \<and> (4 :: cint) = int_of_size (0x504 - sym_address s) \<and>
     sym_address s \<le> 0x504 \<and> 0x504 < sym_address s + sym_size s)"
proof -
  have h: "symtab_by_address 0x504 [two_syms ! 1, two_syms ! 2] = Some (''cfree'', 4)"
    by (simp add: two_syms_def symtab_by_address_def symtab_loop.simps Let_def int_of_size_def)
  from symtab_by_address_sound [OF h] h show ?thesis by blast
qed

text \<open>
  The search is complete on a table in which symbols start and end in the same order;
  a symbol nested inside another one breaks this.
\<close>

definition symtab_ordered :: "symbol_s list \<Rightarrow> bool" where
  "symtab_ordered table \<longleftrightarrow> sorted (map sym_address table) \<and>
     sorted (map (\<lambda>s. sym_address s + sym_size s) table)"

text \<open>C34 (symtab_by_address_complete): on an ordered table an address covered by some
  symbol is always resolved.\<close>

theorem symtab_by_address_complete:
  assumes "symtab_ordered table" and "s \<in> set table"
    and "sym_address s \<le> a" and "a < sym_address s + sym_size s"
  shows "\<exists>name off. symtab_by_address a table = Some (name, off)"
proof -
  from assms(2) obtain k where k: "k < length table" "table ! k = s" by (auto simp: in_set_conv_nth)
  have mono: "sym_address (table ! i) \<le> sym_address (table ! j)"
    "sym_address (table ! i) + sym_size (table ! i) \<le> sym_address (table ! j) + sym_size (table ! j)"
    if "i \<le> j" "j < length table" for i j
    using assms(1) that sorted_nth_mono [of "map sym_address table" i j]
      sorted_nth_mono [of "map (\<lambda>s. sym_address s + sym_size s) table" i j]
    by (auto simp: symtab_ordered_def)
  have "\<exists>m < length table. \<not> a < sym_address (table ! nat (int m)) \<and>
      \<not> a \<ge> sym_address (table ! nat (int m)) + sym_size (table ! nat (int m)) \<and>
      symtab_loop a table 0 (int (length table) - 1) =
        Some (sym_name (table ! nat (int m)), int_of_size (a - sym_address (table ! nat (int m))))"
    by (rule st.table_hit [OF k(1)])
       (use assms(3,4) k mono in \<open>auto simp: not_less not_le intro: less_le_trans order_trans order_trans [OF mono(2)]\<close>)
  then show ?thesis by (auto simp: symtab_by_address_def)
qed

theorem symtab_by_address_complete_witness:
  "\<exists>name off. symtab_by_address 0x41f [two_syms ! 1, two_syms ! 0] = Some (name, off)"
proof (rule symtab_by_address_complete)
  show "symtab_ordered [two_syms ! 1, two_syms ! 0]"
    by (simp add: symtab_ordered_def two_syms_def)
  show "two_syms ! 1 \<in> set [two_syms ! 1, two_syms ! 0]" by simp
  show "sym_address (two_syms ! 1) \<le> 0x41f" "0x41f < sym_address (two_syms ! 1) + sym_size (two_syms ! 1)"
    by (simp_all add: two_syms_def)
qed

lemma symtab_name_loop_eq:
  "symtab_name_loop name ss address =
     (case find (\<lambda>s. sym_name s = name \<and> \<not> sym_weak s) ss of
        Some s \<Rightarrow> sym_address s
      | None \<Rightarrow> if address \<noteq> 0 then address
          else (case find (\<lambda>s. sym_name s = name \<and> sym_address s \<noteq> 0) ss of
                  Some s \<Rightarrow> sym_address s | None \<Rightarrow> 0))"
  by (induction ss arbitrary: address) (auto split: option.splits)

text \<open>C35 (symtab_by_name_prefers_strong): the first non-weak symbol of the name decides, and
  only without one the first weak symbol with an address; 0 means that the API was
  not found.\<close>

theorem symtab_by_name_prefers_strong:
  "symtab_by_name name table =
     (case find (\<lambda>s. sym_name s = name \<and> \<not> sym_weak s) table of
        Some s \<Rightarrow> sym_address s
      | None \<Rightarrow> (case find (\<lambda>s. sym_name s = name \<and> sym_address s \<noteq> 0) table of
                  Some s \<Rightarrow> sym_address s | None \<Rightarrow> 0))"
  by (simp add: symtab_by_name_def symtab_name_loop_eq split: option.splits)

text \<open>Fact (symtab_section_collects): with memory available, a symbol section appends exactly
  its defined function symbols, in their order and relocated, and returns how many.\<close>

theorem symtab_section_collects:
  assumes "array_inv tab xs"
    and "sh_type sh = SHT_SYMTAB \<or> sh_type sh = SHT_DYNSYM" and "d_size sh \<noteq> 0"
  shows "\<exists>tab'. symtab_build_section (\<lambda>_. True) str (Some sh) True off base tab =
       Return (int (length (filter (Not \<circ> sym_skipped) (syms sh))), tab') \<and>
     array_inv tab' (xs @ map (sym_entry str (sh_link sh) off base) (filter (Not \<circ> sym_skipped) (syms sh)))"
  using symtab_section_loop_array [OF assms(1), of str "sh_link sh" off base "syms sh" 0] assms(2,3)
  by (auto simp: symtab_build_section_def)

definition demo_section :: elf_section where
  "demo_section = \<lparr>sh_type = 2, sh_link = 3, d_size = 48,
     syms = [\<lparr>st_name = 1, st_info = 0x12, st_shndx = 5, st_value = 0x400, st_size = 32\<rparr>,
             \<lparr>st_name = 2, st_info = 0x12, st_shndx = 0, st_value = 0x500, st_size = 8\<rparr>]\<rparr>"

theorem symtab_section_collects_witness:
  "\<exists>tab'. symtab_build_section (\<lambda>_. True) (\<lambda>l n. ''malloc'') (Some demo_section) True 0x1000 0 (ARRAY 1000) =
       Return (1, tab') \<and>
     array_inv tab' [\<lparr>sym_address = 0x1400, sym_size = 32, sym_weak = False, sym_name = ''malloc''\<rparr>]"
proof -
  have a: "array_inv (ARRAY 1000) []" by (simp add: array_inv_ARRAY)
  have s: "sh_type demo_section = SHT_SYMTAB \<or> sh_type demo_section = SHT_DYNSYM" "d_size demo_section \<noteq> 0"
    by (simp_all add: demo_section_def SHT_SYMTAB_def)
  have f: "filter (Not \<circ> sym_skipped) (syms demo_section) = [hd (syms demo_section)]"
    by (simp add: demo_section_def sym_skipped_def SHN_UNDEF_def GELF_ST_BIND_def GELF_ST_TYPE_def
        STB_NUM_def STT_FUNC_def)
  show ?thesis
    using symtab_section_collects [OF a s, of "\<lambda>l n. ''malloc''" "0x1000" "0"] unfolding f
    by (simp add: sym_entry_def demo_section_def GELF_ST_BIND_def STB_WEAK_def)
qed

end
