(* ===== verification/Debug_Line.thy ===== *)
theory Debug_Line
  imports Dyn_Array
begin

text \<open>
  \<open>src/debug_line.c\<close>: the table of compilation units with their line tables, and the
  search for the source line of an address, in the build with libdw and in the build
  with libdwarf. What the DWARF library returns for a file is an argument of the
  definitions: the rows of a line table (address, line number, source name) and, for
  each compilation unit, the outcome of the calls that lead to them.
\<close>

record dwarf_line =
  dl_addr :: u64
  dl_lineno :: int
  dl_src :: string

record dwarf_die_s =
  dd_start :: u64
  dd_end :: u64
  dd_offset :: u64
  dw_lines :: "dwarf_line list"
  comp_dir_len :: nat

definition new_die :: "u64 \<Rightarrow> dwarf_line list \<Rightarrow> nat \<Rightarrow> dwarf_die_s" where
  "new_die offset linebuf dir_len =
     \<lparr>dd_start = dl_addr (hd linebuf) + offset, dd_end = dl_addr (last linebuf) + offset,
      dd_offset = offset, dw_lines = linebuf, comp_dir_len = dir_len\<rparr>"

section \<open>Building\<close>

text \<open>libdw: a unit is \<open>None\<close> when \<open>dwarf_offdie\<close> fails, else its line table.\<close>

fun dw_units_loop :: "(nat \<Rightarrow> bool) \<Rightarrow> u64 \<Rightarrow> dwarf_line list option list \<Rightarrow> int \<Rightarrow>
     dwarf_die_s array_s \<Rightarrow> (int \<times> dwarf_die_s array_s) run" where
  "dw_units_loop mem_ok offset [] cnt tab = Return (cnt, tab)"
| "dw_units_loop mem_ok offset (None # cus) cnt tab = dw_units_loop mem_ok offset cus cnt tab"
| "dw_units_loop mem_ok offset (Some linebuf # cus) cnt tab =
     (if length linebuf = 0 then dw_units_loop mem_ok offset cus cnt tab
      else (case array_push (mem_ok (item_num tab)) tab of (dd, tab) \<Rightarrow>
        run_bind (array_store dd (new_die offset linebuf 0) tab) (\<lambda>tab.
          dw_units_loop mem_ok offset cus (cnt + 1) tab)))"

definition debug_line_build_dwarf_dw :: "(nat \<Rightarrow> bool) \<Rightarrow> dwarf_line list option list option \<Rightarrow>
     u64 \<Rightarrow> dwarf_die_s array_s \<Rightarrow> (int \<times> dwarf_die_s array_s) run" where
  "debug_line_build_dwarf_dw mem_ok dbg offset tab =
     (case dbg of None \<Rightarrow> Return (-1, tab)
      | Some cus \<Rightarrow> dw_units_loop mem_ok offset cus 0 tab)"

text \<open>libdwarf: the outcomes of \<open>dwarf_siblingof\<close> and \<open>dwarf_srclines\<close>.\<close>

datatype dwarf_unit =
    NoSibling
  | SrcLinesError
  | SrcLinesNoEntry
  | SrcLines "dwarf_line list" "string option"

fun dwarf_units_loop :: "(nat \<Rightarrow> bool) \<Rightarrow> u64 \<Rightarrow> dwarf_unit list \<Rightarrow> int \<Rightarrow>
     dwarf_die_s array_s \<Rightarrow> (int \<times> dwarf_die_s array_s) run" where
  "dwarf_units_loop mem_ok offset [] cnt tab = Return (cnt, tab)"
| "dwarf_units_loop mem_ok offset (NoSibling # cus) cnt tab = Return (-1, tab)"
| "dwarf_units_loop mem_ok offset (SrcLinesError # cus) cnt tab = Return (-1, tab)"
| "dwarf_units_loop mem_ok offset (SrcLinesNoEntry # cus) cnt tab =
     dwarf_units_loop mem_ok offset cus cnt tab"
| "dwarf_units_loop mem_ok offset (SrcLines linebuf dir # cus) cnt tab =
     (if length linebuf = 0 then dwarf_units_loop mem_ok offset cus cnt tab
      else (case array_push (mem_ok (item_num tab)) tab of (dd, tab) \<Rightarrow>
        run_bind (array_store dd (new_die offset linebuf
             (case dir of None \<Rightarrow> 0 | Some d \<Rightarrow> length d + 1)) tab) (\<lambda>tab.
          dwarf_units_loop mem_ok offset cus (cnt + 1) tab)))"

definition debug_line_build_dwarf :: "(nat \<Rightarrow> bool) \<Rightarrow> dwarf_unit list option \<Rightarrow>
     u64 \<Rightarrow> dwarf_die_s array_s \<Rightarrow> (int \<times> dwarf_die_s array_s) run" where
  "debug_line_build_dwarf mem_ok dbg offset tab =
     (case dbg of None \<Rightarrow> Return (-1, tab)
      | Some cus \<Rightarrow> dwarf_units_loop mem_ok offset cus 0 tab)"

definition ET_EXEC :: nat where "ET_EXEC = 2"

text \<open>
  \<open>elf\<close> is \<open>None\<close> when the file cannot be opened and \<open>Some None\<close> when libelf does not
  accept it, else the type in the ELF header; \<open>build\<close> is the call of
  \<open>debug_line_build_dwarf\<close> on the open file.
\<close>

definition debug_line_build_file ::
  "nat option option \<Rightarrow> (u64 \<Rightarrow> 't \<Rightarrow> (int \<times> 't) run) \<Rightarrow> u64 \<Rightarrow> u64 \<Rightarrow> 't \<Rightarrow> (int \<times> 't) run" where
  "debug_line_build_file elf build start end tab =
     (case elf of None \<Rightarrow> Return (-1, tab)
      | Some None \<Rightarrow> Return (-1, tab)
      | Some (Some e_type) \<Rightarrow> build (if e_type = ET_EXEC then 0 else start) tab)"

definition dwarf_die_cmp :: "dwarf_die_s \<Rightarrow> dwarf_die_s \<Rightarrow> int" where
  "dwarf_die_cmp dda ddb = (if dd_start dda < dd_start ddb then -1 else 1)"

definition debug_line_finish :: "dwarf_die_s array_s \<Rightarrow> dwarf_die_s array_s" where
  "debug_line_finish tab = array_sort dwarf_die_cmp tab"

section \<open>Searching\<close>

text \<open>
  Both builds search alike; the libdwarf build cuts the compile directory off the
  source name.
\<close>

function dwdie_loop_dw :: "dwarf_die_s \<Rightarrow> u64 \<Rightarrow> int \<Rightarrow> int \<Rightarrow> (string \<times> cint) option" where
  "dwdie_loop_dw dd address mn mx =
     (if mn \<le> mx then
        let mid = (mn + mx) div 2;
            line1 = dw_lines dd ! nat mid;
            line2 = dw_lines dd ! nat (mid + 1);
            addr1 = dl_addr line1 + dd_offset dd;
            addr2 = dl_addr line2 + dd_offset dd
        in if address < addr1 then dwdie_loop_dw dd address mn (mid - 1)
           else if address > addr2 then dwdie_loop_dw dd address (mid + 1) mx
           else Some (dl_src line1, int_of_long (dl_lineno line1))
      else None)"
  by pat_completeness auto
termination
  by (relation "measure (\<lambda>(dd, address, mn, mx). nat (mx - mn + 1))") auto

declare dwdie_loop_dw.simps [simp del]

definition debug_line_search_dwdie_dw :: "dwarf_die_s \<Rightarrow> u64 \<Rightarrow> (string \<times> cint) option" where
  "debug_line_search_dwdie_dw dd address = dwdie_loop_dw dd address 0 (int (length (dw_lines dd)) - 2)"

function dwdie_loop :: "dwarf_die_s \<Rightarrow> u64 \<Rightarrow> int \<Rightarrow> int \<Rightarrow> (string \<times> cint) option" where
  "dwdie_loop dd address mn mx =
     (if mn \<le> mx then
        let mid = (mn + mx) div 2;
            line1 = dw_lines dd ! nat mid;
            line2 = dw_lines dd ! nat (mid + 1);
            addr1 = dl_addr line1 + dd_offset dd;
            addr2 = dl_addr line2 + dd_offset dd
        in if address < addr1 then dwdie_loop dd address mn (mid - 1)
           else if address > addr2 then dwdie_loop dd address (mid + 1) mx
           else Some (drop (comp_dir_len dd) (dl_src line1), int_of_long (dl_lineno line1))
      else None)"
  by pat_completeness auto
termination
  by (relation "measure (\<lambda>(dd, address, mn, mx). nat (mx - mn + 1))") auto

declare dwdie_loop.simps [simp del]

definition debug_line_search_dwdie :: "dwarf_die_s \<Rightarrow> u64 \<Rightarrow> (string \<times> cint) option" where
  "debug_line_search_dwdie dd address = dwdie_loop dd address 0 (int (length (dw_lines dd)) - 2)"

function die_loop :: "u64 \<Rightarrow> dwarf_die_s list \<Rightarrow> int \<Rightarrow> int \<Rightarrow> dwarf_die_s option" where
  "die_loop address table mn mx =
     (if mn \<le> mx then
        let mid = (mn + mx) div 2; dd = table ! nat mid
        in if address < dd_start dd then die_loop address table mn (mid - 1)
           else if address > dd_end dd then die_loop address table (mid + 1) mx
           else Some dd
      else None)"
  by pat_completeness auto
termination
  by (relation "measure (\<lambda>(address, table, mn, mx). nat (mx - mn + 1))") auto

declare die_loop.simps [simp del]

definition debug_line_search :: "u64 \<Rightarrow> dwarf_die_s list \<Rightarrow> (string \<times> cint) option" where
  "debug_line_search address table =
     (case die_loop address table 0 (int (length table) - 1) of
        None \<Rightarrow> None
      | Some dd \<Rightarrow> debug_line_search_dwdie dd address)"

text \<open>In the libdw build a unit has no compile directory to cut off, and the two searches agree.\<close>

lemma debug_line_search_dwdie_dw_eq:
  assumes "comp_dir_len dd = 0"
  shows "debug_line_search_dwdie_dw dd address = debug_line_search_dwdie dd address"
proof -
  have "dwdie_loop_dw dd a mn mx = dwdie_loop dd a mn mx" if "comp_dir_len dd = 0" for a mn mx
    using that
  proof (induction dd a mn mx rule: dwdie_loop.induct)
    case (1 dd a mn mx)
    then show ?case by (subst dwdie_loop.simps, subst dwdie_loop_dw.simps) (simp add: Let_def)
  qed
  then show ?thesis using assms by (simp add: debug_line_search_dwdie_dw_def debug_line_search_dwdie_def)
qed

interpretation dl: interval_search "dwdie_loop dd a"
  "\<lambda>m. a < dl_addr (dw_lines dd ! nat m) + dd_offset dd"
  "\<lambda>m. a > dl_addr (dw_lines dd ! nat (m + 1)) + dd_offset dd"
  "\<lambda>m. Some (drop (comp_dir_len dd) (dl_src (dw_lines dd ! nat m)),
        int_of_long (dl_lineno (dw_lines dd ! nat m)))"
  None for dd a
  by unfold_locales (subst dwdie_loop.simps, simp add: Let_def)

interpretation dt: interval_search "die_loop a table"
  "\<lambda>m. a < dd_start (table ! nat m)" "\<lambda>m. a > dd_end (table ! nat m)"
  "\<lambda>m. Some (table ! nat m)" None for a table
  by unfold_locales (subst die_loop.simps, simp add: Let_def)

section \<open>Correctness\<close>

lemma dwdie_hit:
  assumes "debug_line_search_dwdie dd a = Some r"
  shows "\<exists>i. Suc i < length (dw_lines dd) \<and>
     dl_addr (dw_lines dd ! i) + dd_offset dd \<le> a \<and> a \<le> dl_addr (dw_lines dd ! Suc i) + dd_offset dd \<and>
     r = (drop (comp_dir_len dd) (dl_src (dw_lines dd ! i)), int_of_long (dl_lineno (dw_lines dd ! i)))"
proof (cases "length (dw_lines dd)")
  case 0
  with assms show ?thesis by (simp add: debug_line_search_dwdie_def dwdie_loop.simps)
next
  case (Suc n)
  with assms dl.table_sound [of dd a n] obtain m where "m < n"
    "\<not> a < dl_addr (dw_lines dd ! m) + dd_offset dd"
    "\<not> a > dl_addr (dw_lines dd ! nat (int m + 1)) + dd_offset dd"
    "r = (drop (comp_dir_len dd) (dl_src (dw_lines dd ! m)), int_of_long (dl_lineno (dw_lines dd ! m)))"
    by (auto simp: debug_line_search_dwdie_def)
  moreover have "nat (int m + 1) = Suc m" by simp
  ultimately show ?thesis using Suc by (intro exI [of _ m]) (auto simp: not_less)
qed

text \<open>C37 (debug_line_search_sound): a reported source line is the line of a row of the line
  table of a compilation unit that covers the address, and the address lies between
  that row and the next one (both ends included).\<close>

theorem debug_line_search_sound:
  assumes "debug_line_search a table = Some (file, line)"
  shows "\<exists>dd \<in> set table. dd_start dd \<le> a \<and> a \<le> dd_end dd \<and>
     (\<exists>i. Suc i < length (dw_lines dd) \<and>
        dl_addr (dw_lines dd ! i) + dd_offset dd \<le> a \<and> a \<le> dl_addr (dw_lines dd ! Suc i) + dd_offset dd \<and>
        file = drop (comp_dir_len dd) (dl_src (dw_lines dd ! i)) \<and>
        line = int_of_long (dl_lineno (dw_lines dd ! i)))"
proof -
  from assms dt.table_sound [of a table "length table"] obtain m where m: "m < length table"
    "\<not> a < dd_start (table ! m)" "\<not> a > dd_end (table ! m)"
    "debug_line_search_dwdie (table ! m) a = Some (file, line)"
    by (auto simp: debug_line_search_def)
  from dwdie_hit [OF m(4)] m(1-3) show ?thesis
    by (intro bexI [of _ "table ! m"]) (auto simp: not_less)
qed

definition demo_die :: dwarf_die_s where
  "demo_die = new_die 0x1000
     [\<lparr>dl_addr = 0x10, dl_lineno = 7, dl_src = ''foo.c''\<rparr>, \<lparr>dl_addr = 0x18, dl_lineno = 8, dl_src = ''foo.c''\<rparr>,
      \<lparr>dl_addr = 0x20, dl_lineno = 9, dl_src = ''foo.c''\<rparr>] 0"

lemma demo_search: "debug_line_search 0x101a [demo_die] = Some (''foo.c'', 8)"
  by (simp add: debug_line_search_def die_loop.simps debug_line_search_dwdie_def dwdie_loop.simps
      demo_die_def new_die_def Let_def int_of_long_def)

theorem debug_line_search_sound_witness:
  "debug_line_search 0x101a [demo_die] = Some (''foo.c'', 8) \<and>
   (\<exists>dd \<in> set [demo_die]. dd_start dd \<le> 0x101a \<and> 0x101a \<le> dd_end dd \<and>
     (\<exists>i. Suc i < length (dw_lines dd) \<and>
        dl_addr (dw_lines dd ! i) + dd_offset dd \<le> 0x101a \<and> 0x101a \<le> dl_addr (dw_lines dd ! Suc i) + dd_offset dd \<and>
        ''foo.c'' = drop (comp_dir_len dd) (dl_src (dw_lines dd ! i)) \<and>
        (8 :: cint) = int_of_long (dl_lineno (dw_lines dd ! i))))"
  using debug_line_search_sound [OF demo_search] demo_search by blast

definition die_wf :: "dwarf_die_s \<Rightarrow> bool" where
  "die_wf dd \<longleftrightarrow> 2 \<le> length (dw_lines dd) \<and>
     sorted (map (\<lambda>l. dl_addr l + dd_offset dd) (dw_lines dd)) \<and>
     dd_start dd = dl_addr (hd (dw_lines dd)) + dd_offset dd \<and>
     dd_end dd = dl_addr (last (dw_lines dd)) + dd_offset dd"

text \<open>C38 (debug_line_search_dwdie_complete): in a compilation unit whose line table is in
  address order, every address between its first and its last row gets a line.\<close>

theorem debug_line_search_dwdie_complete:
  assumes wf: "die_wf dd" and "dd_start dd \<le> a" and "a \<le> dd_end dd"
  shows "\<exists>r. debug_line_search_dwdie dd a = Some r"
proof -
  let ?ad = "\<lambda>i. dl_addr (dw_lines dd ! i) + dd_offset dd"
  obtain n where n: "length (dw_lines dd) = Suc (Suc n)"
    using wf by (metis die_wf_def add_2_eq_Suc le_Suc_ex)
  have mono: "?ad i \<le> ?ad j" if "i \<le> j" "j \<le> Suc n" for i j
    using wf that n sorted_nth_mono [of "map (\<lambda>l. dl_addr l + dd_offset dd) (dw_lines dd)" i j]
    by (auto simp: die_wf_def)
  have "dw_lines dd \<noteq> []" using n by auto
  then have ends: "?ad 0 \<le> a" "a \<le> ?ad (Suc n)"
    using assms n by (auto simp: die_wf_def hd_conv_nth last_conv_nth)
  have "\<exists>k \<le> n. ?ad k \<le> a \<and> a \<le> ?ad (Suc k)"
  proof (rule ccontr)
    assume no: "\<not> ?thesis"
    have "?ad k \<le> a" if "k \<le> Suc n" for k
      using that
    proof (induction k)
      case (Suc k)
      then have "k \<le> n" "?ad k \<le> a" by auto
      with no have "\<not> a \<le> ?ad (Suc k)" by blast
      then show ?case by simp
    qed (use ends in simp)
    from this [of n] no ends show False by auto
  qed
  then obtain k where k: "k < Suc n" "?ad k \<le> a" "a \<le> ?ad (Suc k)"
    using le_imp_less_Suc by blast
  have si: "nat (int i + 1) = Suc i" for i by simp
  have "\<exists>m < Suc n. \<not> a < dl_addr (dw_lines dd ! nat (int m)) + dd_offset dd \<and>
      \<not> a > dl_addr (dw_lines dd ! nat (int m + 1)) + dd_offset dd \<and>
      dwdie_loop dd a 0 (int (Suc n) - 1) = Some (drop (comp_dir_len dd) (dl_src (dw_lines dd ! nat (int m))),
        int_of_long (dl_lineno (dw_lines dd ! nat (int m))))"
    by (rule dl.table_hit [OF k(1)])
       (use k mono in \<open>auto simp: not_less si intro: less_le_trans le_less_trans [OF mono]\<close>)
  then show ?thesis using n by (auto simp: debug_line_search_dwdie_def)
qed

theorem debug_line_search_dwdie_complete_witness:
  "die_wf demo_die \<and> (\<exists>r. debug_line_search_dwdie demo_die 0x1013 = Some r)"
proof -
  have w: "die_wf demo_die" by (simp add: die_wf_def demo_die_def new_die_def)
  have "\<exists>r. debug_line_search_dwdie demo_die 0x1013 = Some r"
    by (rule debug_line_search_dwdie_complete [OF w]) (simp_all add: demo_die_def new_die_def)
  with w show ?thesis by simp
qed

end
