(* ===== verification/Call_Stack.thy ===== *)
theory Call_Stack
  imports Hash_Table Addr_Maps Sym_Tab Debug_Line
begin

text \<open>
  \<open>src/callstack.c\<close> and \<open>src/callstack.h\<close>: the call stacks on which the target
  allocates, found by their return addresses in a hash table, with the counters that
  the tracker keeps for each. The counters are C \<open>int\<close>s. \<open>ce\<close> carries what a call
  takes from outside: the API entry address, the frames that \<open>ptr_backtrace\<close> delivers,
  the result of \<open>malloc\<close>, and the words of memory that happen to lie behind each
  allocated structure, which a comparison longer than the structure reads.
\<close>

record callstack_s =
  cs_id :: cint
  alloc_count :: cint
  free_count :: cint
  expired_count :: cint
  free_expired_count :: cint
  alloc_size :: cint
  free_size :: cint
  expired_size :: cint
  free_expired_size :: cint
  free_min :: cint
  free_max :: cint
  free_total :: cint
  unfree_max :: cint
  ip_num :: nat
  ips :: "u64 list"

definition BACKTRACE_MAX :: nat where
  "BACKTRACE_MAX = 50"

record sym_env =
  g_addr_maps :: "addr_map_s list"
  g_symbol_table :: "symbol_s list"
  g_dwarf_dies :: "dwarf_die_s list"

record cs_state =
  tables :: sym_env
  g_callstack_hash :: hheap
  cs_mem :: "nat \<Rightarrow> callstack_s"

record callenv =
  ce_entry :: u64
  ce_frames :: "u64 list"
  ce_malloc :: "nat option"
  ce_behind :: "nat \<Rightarrow> nat \<Rightarrow> u64"

section \<open>Looking up the current call stack\<close>

definition zero_callstack :: callstack_s where
  "zero_callstack = \<lparr>cs_id = 0, alloc_count = 0, free_count = 0, expired_count = 0,
     free_expired_count = 0, alloc_size = 0, free_size = 0, expired_size = 0,
     free_expired_size = 0, free_min = 0, free_max = 0, free_total = 0, unfree_max = 0,
     ip_num = 0, ips = []\<rparr>"

text \<open>The 32-bit words of an array of addresses, continued by what lies behind it.\<close>

definition words_key :: "(nat \<Rightarrow> u64) \<Rightarrow> u64 list \<Rightarrow> nat \<Rightarrow> u32" where
  "words_key behind xs i =
     word_key (if i div 2 < length xs then xs ! (i div 2) else behind (i div 2)) (i mod 2)"

definition cs_key :: "(nat \<Rightarrow> nat \<Rightarrow> u64) \<Rightarrow> (nat \<Rightarrow> callstack_s) \<Rightarrow> nat \<Rightarrow> nat \<Rightarrow> u32" where
  "cs_key behind mem n = words_key (behind n) (ips (mem n))"

definition callstack_current ::
  "callenv \<Rightarrow> 'a cs_state_scheme \<Rightarrow> (nat option \<times> 'a cs_state_scheme) run" where
  "callstack_current ce st =
     (let stack = ce_entry ce # ce_frames ce;
          num = length (ce_frames ce) + 1;
          len = 8 * num
      in run_bind (run_of_option
            (hash_search (cs_key (ce_behind ce) (cs_mem st)) (g_callstack_hash st)
               (words_key (\<lambda>_. 0) stack) len)) (\<lambda>p.
         case p of
           Some cs \<Rightarrow> Return (Some cs, st)
         | None \<Rightarrow>
             (case ce_malloc ce of
                None \<Rightarrow> Return (None, st)
              | Some cs \<Rightarrow>
                  let st = st\<lparr>cs_mem := (cs_mem st)(cs := zero_callstack\<lparr>ips := stack, ip_num := num\<rparr>)\<rparr>;
                      st = st\<lparr>g_callstack_hash :=
                             hash_add (cs_key (ce_behind ce) (cs_mem st)) cs len (g_callstack_hash st)\<rparr>
                  in Return (Some cs, st))))"

section \<open>Printing\<close>

record frame_line =
  fl_address :: u64
  fl_map :: string
  fl_proc :: "(string \<times> cint) option"
  fl_file :: "(string \<times> cint) option"

fun callstack_print_loop :: "sym_env \<Rightarrow> u64 list \<Rightarrow> frame_line list" where
  "callstack_print_loop env [] = []"
| "callstack_print_loop env (address # rest) =
     (if address = 0 then []
      else
        let proc = symtab_by_address address (g_symbol_table env);
            line = \<lparr>fl_address = address,
                    fl_map = addr_maps_search address (g_addr_maps env),
                    fl_proc = proc,
                    fl_file = debug_line_search (address - 1) (g_dwarf_dies env)\<rparr>
        in if map_option fst proc = Some ''main'' then [line]
           else line # callstack_print_loop env rest)"

definition callstack_print :: "sym_env \<Rightarrow> callstack_s \<Rightarrow> frame_line list" where
  "callstack_print env cs = callstack_print_loop env (take (ip_num cs) (ips cs))"

section \<open>Report\<close>

definition callstack_cmp :: "callstack_s \<Rightarrow> callstack_s \<Rightarrow> int" where
  "callstack_cmp csa csb =
     sint ((expired_count csa - free_expired_count csa) - (expired_count csb - free_expired_count csb))"

record report_line =
  rl_stack :: nat
  rl_id :: cint
  rl_may_leak :: cint
  rl_may_leak_size :: cint
  rl_average :: cint
  rl_stats :: callstack_s
  rl_frames :: "frame_line list"

text \<open>C division of \<open>int\<close>s truncates towards zero.\<close>

definition int_div :: "cint \<Rightarrow> cint \<Rightarrow> cint" where
  "int_div a b = int_of_long (sgn (sint a) * sgn (sint b) * (\<bar>sint a\<bar> div \<bar>sint b\<bar>))"

definition report_of :: "sym_env \<Rightarrow> nat \<Rightarrow> callstack_s \<Rightarrow> report_line" where
  "report_of env n cs =
     \<lparr>rl_stack = n, rl_id = cs_id cs,
      rl_may_leak = expired_count cs - free_expired_count cs,
      rl_may_leak_size = expired_size cs - free_expired_size cs,
      rl_average = (if free_count cs \<noteq> 0 then int_div (free_total cs) (free_count cs) else 0),
      rl_stats = cs,
      rl_frames = callstack_print env cs\<rparr>"

text \<open>The part of \<open>callstack_report\<close> after \<open>memblock_count\<close>: collect into an array, sort, show. \<open>mem_ok\<close>
  tells, by the number of items, whether there is memory when the array has to grow.\<close>

fun report_loop :: "(nat \<Rightarrow> bool) \<Rightarrow> (nat \<Rightarrow> callstack_s) \<Rightarrow> nat list \<Rightarrow> nat array_s \<Rightarrow> nat array_s run" where
  "report_loop mem_ok mem [] callstacks = Return callstacks"
| "report_loop mem_ok mem (n # ns) callstacks =
     (if expired_count (mem n) = free_expired_count (mem n) then report_loop mem_ok mem ns callstacks
      else (case array_push (mem_ok (item_num callstacks)) callstacks of (csp, callstacks) \<Rightarrow>
        run_bind (array_store csp n callstacks) (report_loop mem_ok mem ns)))"

definition callstack_report :: "(nat \<Rightarrow> bool) \<Rightarrow> 'a cs_state_scheme \<Rightarrow> report_line list run" where
  "callstack_report mem_ok st =
     run_bind (run_of_option (hash_for_each (g_callstack_hash st))) (\<lambda>nodes.
     run_bind (report_loop mem_ok (cs_mem st) nodes (ARRAY 1000)) (\<lambda>callstacks.
       if item_num callstacks = 0 then Return []
       else let callstacks = array_sort (\<lambda>a b. callstack_cmp (cs_mem st a) (cs_mem st b)) callstacks
            in Return (map (\<lambda>csp. report_of (tables st) (the csp) (cs_mem st (the csp))) (array_items callstacks))))"

section \<open>The table of call stacks\<close>

text \<open>
  \<open>cs_table st ns\<close>: the table holds the call stacks \<open>ns\<close>, newest first, each stored
  with its own length and no two with the same addresses.
\<close>

definition cs_slot :: "(nat \<Rightarrow> callstack_s) \<Rightarrow> nat \<Rightarrow> nat" where
  "cs_slot mem n = hash_slot (words_key (\<lambda>_. 0) (ips (mem n))) (8 * length (ips (mem n)))"

definition cs_table :: "'a cs_state_scheme \<Rightarrow> nat list \<Rightarrow> bool" where
  "cs_table st ns \<longleftrightarrow> hash_rep (cs_slot (cs_mem st)) (g_callstack_hash st) ns \<and>
     inj_on (\<lambda>n. ips (cs_mem st n)) (set ns) \<and>
     (\<forall>n \<in> set ns. ips (cs_mem st n) \<noteq> [] \<and> ip_num (cs_mem st n) = length (ips (cs_mem st n)))"

lemma words_key_prefix: "i div 2 < length xs \<Longrightarrow> words_key b xs i = words_key b' xs i"
  by (simp add: words_key_def)

lemma word_key_eqD:
  assumes "word_key a 0 = word_key b 0" "word_key a 1 = word_key b 1"
  shows "a = b"
  using assms memcmp_eq_word_key [of a b] by (simp add: memcmp_eq_def upt_rec)

lemma words_key_halves:
  "words_key b xs (2 * i) = word_key (if i < length xs then xs ! i else b i) 0"
  "words_key b xs (Suc (2 * i)) = word_key (if i < length xs then xs ! i else b i) 1"
  by (auto simp: words_key_def)

lemma memcmp_eq_words_key:
  "memcmp_eq (words_key b xs) (words_key b' ys) (8 * n) \<longleftrightarrow>
   (\<forall>i < n. (if i < length xs then xs ! i else b i) = (if i < length ys then ys ! i else b' i))"
  (is "?L \<longleftrightarrow> ?R")
proof
  assume L: ?L
  show ?R
  proof (intro allI impI)
    fix i assume "i < n"
    then have "words_key b xs (2 * i) = words_key b' ys (2 * i)"
      "words_key b xs (Suc (2 * i)) = words_key b' ys (Suc (2 * i))"
      using L by (auto simp: memcmp_eq_def list_all_iff)
    then show "(if i < length xs then xs ! i else b i) = (if i < length ys then ys ! i else b' i)"
      unfolding words_key_halves by (rule word_key_eqD)
  qed
next
  assume R: ?R
  then show ?L
    by (auto simp: memcmp_eq_def list_all_iff words_key_def)
qed

lemma memcmp_eq_words_key_same_length:
  assumes "length xs = n" "length ys = n"
  shows "memcmp_eq (words_key b xs) (words_key b' ys) (8 * n) \<longleftrightarrow> xs = ys"
  using assms by (auto simp: memcmp_eq_words_key list_eq_iff_nth_eq)

lemma cs_table_empty: "g_callstack_hash st = empty_hash \<Longrightarrow> cs_table st []"
  by (simp add: cs_table_def hash_rep_empty)

lemma cs_table_frame:
  assumes "cs_table st ns" and "g_callstack_hash st' = g_callstack_hash st"
    and "\<And>n. n \<in> set ns \<Longrightarrow> ips (cs_mem st' n) = ips (cs_mem st n) \<and> ip_num (cs_mem st' n) = ip_num (cs_mem st n)"
  shows "cs_table st' ns"
proof -
  have "hash_rep (cs_slot (cs_mem st')) (g_callstack_hash st') ns = hash_rep (cs_slot (cs_mem st)) (g_callstack_hash st) ns"
    unfolding assms(2) by (rule hash_rep_cong) (use assms(3) in \<open>auto simp: cs_slot_def\<close>)
  moreover have "inj_on (\<lambda>n. ips (cs_mem st' n)) (set ns) = inj_on (\<lambda>n. ips (cs_mem st n)) (set ns)"
    by (rule inj_on_cong) (use assms(3) in auto)
  ultimately show ?thesis using assms by (auto simp: cs_table_def)
qed

text \<open>
  What a lookup finds. The comparison stops at the length of the wanted stack, so a
  stored stack of another length can be taken for it: \<open>matches\<close> is the exact condition.
\<close>

definition stack_matches :: "(nat \<Rightarrow> u64) \<Rightarrow> u64 list \<Rightarrow> u64 list \<Rightarrow> bool" where
  "stack_matches behind stored wanted \<longleftrightarrow>
     hash_slot (words_key (\<lambda>_. 0) stored) (8 * length stored) =
       hash_slot (words_key (\<lambda>_. 0) wanted) (8 * length wanted) \<and>
     (\<forall>i < length wanted. (if i < length stored then stored ! i else behind i) = wanted ! i)"

lemma stack_matches_refl: "stack_matches b xs xs"
  by (simp add: stack_matches_def)

lemma stack_matches_same_length:
  "length xs = length ys \<Longrightarrow> stack_matches b xs ys \<longleftrightarrow> xs = ys"
  by (auto simp: stack_matches_refl) (auto simp: stack_matches_def list_eq_iff_nth_eq)

lemma callstack_search:
  assumes "cs_table st ns"
  shows "hash_search (cs_key behind (cs_mem st)) (g_callstack_hash st)
      (words_key (\<lambda>_. 0) stack) (8 * length stack) =
    Some (find (\<lambda>n. stack_matches (behind n) (ips (cs_mem st n)) stack) ns)"
proof -
  have rep: "hash_rep (cs_slot (cs_mem st)) (g_callstack_hash st) ns"
    using assms by (simp add: cs_table_def)
  show ?thesis
    unfolding hash_rep_hash_search [OF rep] cs_key_def memcmp_eq_words_key
    by (intro arg_cong [of _ _ Some] find_cong_set) (auto simp: stack_matches_def cs_slot_def)
qed

text \<open>The state after a new call stack \<open>c\<close> was added.\<close>

definition add_callstack :: "callenv \<Rightarrow> nat \<Rightarrow> 'a cs_state_scheme \<Rightarrow> 'a cs_state_scheme" where
  "add_callstack ce c st =
     (let stack = ce_entry ce # ce_frames ce;
          mem = (cs_mem st)(c := zero_callstack\<lparr>ips := stack, ip_num := length stack\<rparr>)
      in st\<lparr>cs_mem := mem,
            g_callstack_hash := hash_add (cs_key (ce_behind ce) mem) c (8 * length stack) (g_callstack_hash st)\<rparr>)"

lemma callstack_current_cases:
  assumes "cs_table st ns"
  shows "callstack_current ce st =
    (case find (\<lambda>n. stack_matches (ce_behind ce n) (ips (cs_mem st n)) (ce_entry ce # ce_frames ce)) ns of
       Some n \<Rightarrow> Return (Some n, st)
     | None \<Rightarrow> (case ce_malloc ce of None \<Rightarrow> Return (None, st)
                | Some c \<Rightarrow> Return (Some c, add_callstack ce c st)))"
  using callstack_search [OF assms, of "ce_behind ce" "ce_entry ce # ce_frames ce"]
  by (simp add: callstack_current_def add_callstack_def Let_def split: option.split)

lemma add_callstack_fields [simp]:
  "cs_mem (add_callstack ce c st) =
     (cs_mem st)(c := zero_callstack\<lparr>ips := ce_entry ce # ce_frames ce, ip_num := Suc (length (ce_frames ce))\<rparr>)"
  "tables (add_callstack ce c st) = tables st"
  by (simp_all add: add_callstack_def Let_def)

lemma cs_table_add:
  assumes tab: "cs_table st ns" and new: "c \<notin> set ns"
    and miss: "find (\<lambda>n. stack_matches (ce_behind ce n) (ips (cs_mem st n)) (ce_entry ce # ce_frames ce)) ns = None"
  shows "cs_table (add_callstack ce c st) (c # ns)"
proof -
  let ?st = "add_callstack ce c st" and ?stack = "ce_entry ce # ce_frames ce"
  have "hash_rep (cs_slot (cs_mem ?st)) (g_callstack_hash st) ns"
    using tab new by (subst hash_rep_cong [of ns _ "cs_slot (cs_mem st)"]) (auto simp: cs_slot_def cs_table_def)
  from hash_rep_add_head [OF this new]
  have "hash_rep (cs_slot (cs_mem ?st)) (hlist_add_head c (cs_slot (cs_mem ?st) c) (g_callstack_hash st)) (c # ns)" .
  moreover have "hash_slot (cs_key (ce_behind ce) (cs_mem ?st) c) (8 * length ?stack) = cs_slot (cs_mem ?st) c"
    using hash_slot_cong [OF iffD2 [OF memcmp_eq_words_key_same_length [OF refl refl] refl],
        of "ce_behind ce c" ?stack "\<lambda>_. 0"]
    by (simp add: cs_slot_def cs_key_def)
  ultimately have rep: "hash_rep (cs_slot (cs_mem ?st)) (g_callstack_hash ?st) (c # ns)"
    by (simp add: add_callstack_def Let_def hash_add_def)
  have "ips (cs_mem st n) \<noteq> ?stack" if "n \<in> set ns" for n
    using miss that stack_matches_refl by (fastforce simp: find_None_iff)
  then have "inj_on (\<lambda>n. ips (cs_mem ?st n)) (set (c # ns))"
    using tab new by (auto simp: cs_table_def inj_on_def) (metis)+
  with rep tab new show ?thesis by (auto simp: cs_table_def)
qed

text \<open>C20 (callstack_current_exact): if every stored call stack has the depth of the current
  one, a lookup returns a call stack with exactly the current return addresses, be it
  found or created, and keeps the table well formed.\<close>

theorem callstack_current_exact:
  assumes "cs_table st ns"
    and "\<forall>n \<in> set ns. length (ips (cs_mem st n)) = Suc (length (ce_frames ce))"
    and "ce_malloc ce = Some c" and "c \<notin> set ns"
  shows "\<exists>n st'. callstack_current ce st = Return (Some n, st') \<and>
     ips (cs_mem st' n) = ce_entry ce # ce_frames ce \<and>
     (cs_table st' ns \<and> n \<in> set ns \<and> st' = st \<or> cs_table st' (c # ns) \<and> n = c)"
proof (cases "find (\<lambda>n. stack_matches (ce_behind ce n) (ips (cs_mem st n)) (ce_entry ce # ce_frames ce)) ns")
  case None
  with assms cs_table_add [OF assms(1,4) None] show ?thesis
    by (simp add: callstack_current_cases)
next
  case (Some n)
  with find_Some_set [OF Some] assms(2) have "n \<in> set ns" "ips (cs_mem st n) = ce_entry ce # ce_frames ce"
    by (auto simp: stack_matches_same_length)
  with assms Some show ?thesis by (simp add: callstack_current_cases)
qed

definition init_cs :: cs_state where
  "init_cs = \<lparr>tables = \<lparr>g_addr_maps = [], g_symbol_table = [], g_dwarf_dies = []\<rparr>,
     g_callstack_hash = empty_hash, cs_mem = (\<lambda>_. zero_callstack)\<rparr>"

definition demo_ce :: "u64 list \<Rightarrow> nat \<Rightarrow> callenv" where
  "demo_ce frames c = \<lparr>ce_entry = 0x400, ce_frames = frames, ce_malloc = Some c, ce_behind = (\<lambda>_ _. 0)\<rparr>"

theorem callstack_current_exact_witness:
  "cs_table init_cs [] \<and> (\<exists>n st'. callstack_current (demo_ce [0x10, 0x20] 1) init_cs = Return (Some n, st') \<and>
     ips (cs_mem st' n) = [0x400, 0x10, 0x20])"
proof -
  have t: "cs_table init_cs []" by (simp add: cs_table_empty init_cs_def)
  have "ce_malloc (demo_ce [0x10, 0x20] 1) = Some 1" by (simp add: demo_ce_def)
  from callstack_current_exact [OF t _ this] t show ?thesis by (auto simp: demo_ce_def)
qed

text \<open>Fact (callstack_prefix_confusion): the lookup compares only as many addresses as the
  current stack has and never the depth. A stack of four frames is stored; a stack
  that consists of its first two frames is then taken for it, since the two remaining
  addresses cancel in the hash, and the allocation is booked on the wrong call stack.\<close>

theorem callstack_prefix_confusion:
  "\<exists>st. callstack_current (demo_ce [0x10, 0x20, 0x20] 1) init_cs = Return (Some 1, st) \<and>
     ips (cs_mem st 1) = [0x400, 0x10, 0x20, 0x20] \<and>
     callstack_current (demo_ce [0x10] 2) st = Return (Some 1, st)"
proof -
  have t: "cs_table init_cs []" by (simp add: cs_table_empty init_cs_def)
  let ?st = "add_callstack (demo_ce [0x10, 0x20, 0x20] 1) 1 init_cs"
  have t': "cs_table ?st [1]" by (rule cs_table_add [OF t]) simp_all
  have "callstack_current (demo_ce [0x10, 0x20, 0x20] 1) init_cs = Return (Some 1, ?st)"
    unfolding callstack_current_cases [OF t] by (simp add: demo_ce_def)
  moreover have "hash_slot (words_key (\<lambda>_. 0) [0x400, 0x10, 0x20, 0x20]) (8 * length [0x400, 0x10, 0x20, 0x20 :: u64]) =
      hash_slot (words_key (\<lambda>_. 0) [0x400, 0x10]) (8 * length [0x400, 0x10 :: u64])"
    by code_simp
  then have "stack_matches (\<lambda>_. 0) [0x400, 0x10, 0x20, 0x20] [0x400, 0x10]"
    unfolding stack_matches_def by (auto simp: less_Suc_eq)
  then have "callstack_current (demo_ce [0x10] 2) ?st = Return (Some 1, ?st)"
    unfolding callstack_current_cases [OF t'] by (simp add: demo_ce_def)
  ultimately show ?thesis by (auto simp: demo_ce_def)
qed

section \<open>The report\<close>

lemma mset_slots: "mset (concat (map (\<lambda>i. filter (\<lambda>n. slot n = i) ns) [0..<h])) =
   mset (filter (\<lambda>n. slot n < h) ns)"
proof (induction h)
  case (Suc h)
  have "mset (filter (\<lambda>n. slot n < Suc h) ns) =
      mset (filter (\<lambda>n. slot n < h) ns) + mset (filter (\<lambda>n. slot n = h) ns)"
    by (induction ns) auto
  with Suc show ?case by simp
qed simp

lemma hash_for_each_mset:
  assumes "hash_rep slot h ns" and "\<And>n. n \<in> set ns \<Longrightarrow> slot n < HASH_SIZE"
  shows "\<exists>ms. hash_for_each h = Some ms \<and> mset ms = mset ns"
proof -
  have "filter (\<lambda>n. slot n < HASH_SIZE) ns = ns" using assms(2) by simp
  then show ?thesis
    unfolding hash_rep_hash_for_each [OF assms(1)] using mset_slots [of slot ns HASH_SIZE] by simp
qed

lemma sint_diff_small:
  fixes x y :: cint
  assumes "- (2 ^ 30) \<le> sint x" "sint x < 2 ^ 30" "- (2 ^ 30) \<le> sint y" "sint y < 2 ^ 30"
  shows "sint (x - y) = sint x - sint y"
proof -
  have "x - y = int_of_long (sint x - sint y)"
    by (simp add: int_of_long_def)
  then show ?thesis using assms by (simp add: sint_int_of_long)
qed

lemma report_of_sel [simp]:
  "rl_stack (report_of env n cs) = n" "rl_stats (report_of env n cs) = cs"
  "rl_may_leak (report_of env n cs) = expired_count cs - free_expired_count cs"
  by (simp_all add: report_of_def)

definition may_leak :: "callstack_s \<Rightarrow> int" where
  "may_leak cs = sint (expired_count cs - free_expired_count cs)"

lemma report_loop_array:
  assumes "array_inv a xs"
  shows "\<exists>b. report_loop (\<lambda>_. True) mem ns a = Return b \<and>
    array_inv b (xs @ filter (\<lambda>n. expired_count (mem n) \<noteq> free_expired_count (mem n)) ns)"
  using assms
proof (induction ns arbitrary: a xs)
  case (Cons n ns)
  show ?case
  proof (cases "expired_count (mem n) = free_expired_count (mem n)")
    case True
    with Cons show ?thesis by simp
  next
    case False
    obtain pos t where push: "array_push True a = (pos, t)" by fastforce
    from array_push_store [OF Cons.prems push] obtain b where
      b: "array_store pos n t = Return b" "array_inv b (xs @ [n])" by blast
    from Cons.IH [OF b(2)] push b(1) False show ?thesis by simp
  qed
qed simp

text \<open>Without memory, the first call stack to report makes the program write through NULL.\<close>

lemma report_loop_no_memory:
  assumes "\<not> mem_ok 0" and "\<exists>n \<in> set ns. expired_count (mem n) \<noteq> free_expired_count (mem n)"
  shows "report_loop mem_ok mem ns (ARRAY 1000) = Crash NullDeref"
  using assms(2)
proof (induction ns)
  case (Cons n ns)
  show ?case
  proof (cases "expired_count (mem n) = free_expired_count (mem n)")
    case True
    with Cons show ?thesis by simp
  next
    case False
    have "array_push False (ARRAY 1000 :: nat array_s) = (None, ARRAY 1000)" by (simp add: array_push_def ARRAY_def)
    with False assms(1) show ?thesis by (simp add: ARRAY_def array_store_def)
  qed
qed simp

lemma callstack_report_array:
  assumes "hash_for_each (g_callstack_hash st) = Some ms"
  shows "callstack_report (\<lambda>_. True) st = Return (map (\<lambda>n. report_of (tables st) n (cs_mem st n))
    (qsort (\<lambda>a b. callstack_cmp (cs_mem st a) (cs_mem st b))
      (filter (\<lambda>n. expired_count (cs_mem st n) \<noteq> free_expired_count (cs_mem st n)) ms)))"
proof -
  let ?xs = "filter (\<lambda>n. expired_count (cs_mem st n) \<noteq> free_expired_count (cs_mem st n)) ms"
  have "array_inv (ARRAY 1000 :: nat array_s) []" by (rule array_inv_ARRAY) simp
  from report_loop_array [OF this, of "cs_mem st" ms] obtain b where
    b: "report_loop (\<lambda>_. True) (cs_mem st) ms (ARRAY 1000) = Return b" "array_inv b ?xs" by auto
  have n: "item_num b = length ?xs" using b(2) by (simp add: array_inv_def)
  from array_inv_items [OF array_inv_sort [OF b(2)]] b(1) n assms show ?thesis
    by (cases "?xs = []") (simp_all add: callstack_report_def Let_def qsort.simps comp_def)
qed

lemma callstack_report_spec:
  assumes "cs_table st ns"
    and small: "\<forall>n \<in> set ns. 0 \<le> may_leak (cs_mem st n) \<and> may_leak (cs_mem st n) < 2 ^ 30"
  shows "\<exists>ls. callstack_report (\<lambda>_. True) st = Return ls \<and>
     mset (map rl_stack ls) =
       mset (filter (\<lambda>n. expired_count (cs_mem st n) \<noteq> free_expired_count (cs_mem st n)) ns) \<and>
     sorted (map (\<lambda>l. sint (rl_may_leak l)) ls) \<and>
     (\<forall>l \<in> set ls. rl_stats l = cs_mem st (rl_stack l) \<and>
        rl_may_leak l = expired_count (rl_stats l) - free_expired_count (rl_stats l))"
proof -
  from assms(1) have rep: "hash_rep (cs_slot (cs_mem st)) (g_callstack_hash st) ns"
    by (simp add: cs_table_def)
  have "cs_slot (cs_mem st) n < HASH_SIZE" for n by (simp add: cs_slot_def hash_slot_bound)
  with hash_for_each_mset [OF rep] obtain ms where ms: "hash_for_each (g_callstack_hash st) = Some ms"
    "mset ms = mset ns" by blast
  let ?P = "\<lambda>n. expired_count (cs_mem st n) \<noteq> free_expired_count (cs_mem st n)"
  let ?cmp = "\<lambda>a b. callstack_cmp (cs_mem st a) (cs_mem st b)"
  let ?q = "qsort ?cmp (filter ?P ms)"
  have sub: "set (filter ?P ms) \<subseteq> set ns" using arg_cong [OF ms(2), of set_mset] by auto
  have cmp: "?cmp a b = may_leak (cs_mem st a) - may_leak (cs_mem st b)" if "a \<in> set ns" "b \<in> set ns" for a b
  proof -
    have "0 \<le> may_leak (cs_mem st a)" "may_leak (cs_mem st a) < 2 ^ 30"
      "0 \<le> may_leak (cs_mem st b)" "may_leak (cs_mem st b) < 2 ^ 30"
      using small that by auto
    then show ?thesis
      unfolding callstack_cmp_def may_leak_def by (intro sint_diff_small) auto
  qed
  have "sorted (map (\<lambda>n. may_leak (cs_mem st n)) ?q)"
    by (rule qs.sort_sorted) (use sub cmp in \<open>auto simp: subset_iff\<close>)
  then have "sorted (map (\<lambda>l. sint (rl_may_leak l)) (map (\<lambda>n. report_of (tables st) n (cs_mem st n)) ?q))"
    by (simp add: comp_def may_leak_def)
  moreover have "map rl_stack (map (\<lambda>n. report_of (tables st) n (cs_mem st n)) ?q) = ?q"
    by (simp add: comp_def)
  moreover have "mset ?q = mset (filter ?P ns)"
    using ms(2) by (simp add: qs.sort_perm)
  moreover have "callstack_report (\<lambda>_. True) st = Return (map (\<lambda>n. report_of (tables st) n (cs_mem st n)) ?q)"
    by (rule callstack_report_array [OF ms(1)])
  moreover have "\<forall>l \<in> set (map (\<lambda>n. report_of (tables st) n (cs_mem st n)) ?q). rl_stats l = cs_mem st (rl_stack l) \<and>
      rl_may_leak l = expired_count (rl_stats l) - free_expired_count (rl_stats l)"
    by simp
  ultimately show ?thesis
    by (intro exI [of _ "map (\<lambda>n. report_of (tables st) n (cs_mem st n)) ?q"]) (simp only: simp_thms)
qed

lemma callstack_report_no_memory:
  assumes tab: "cs_table st ns" and "\<not> mem_ok 0" and "\<exists>n \<in> set ns. may_leak (cs_mem st n) \<noteq> 0"
  shows "callstack_report mem_ok st = Crash NullDeref"
proof -
  have "cs_slot (cs_mem st) n < HASH_SIZE" for n by (simp add: cs_slot_def hash_slot_bound)
  with hash_for_each_mset [of "cs_slot (cs_mem st)"] tab obtain ms where ms: "hash_for_each (g_callstack_hash st) = Some ms"
    "mset ms = mset ns" unfolding cs_table_def by blast
  then have "\<exists>n \<in> set ms. expired_count (cs_mem st n) \<noteq> free_expired_count (cs_mem st n)"
    using assms(3) mset_eq_setD [OF ms(2)] unfolding may_leak_def by (metis diff_self signed_0)
  with report_loop_no_memory [of mem_ok, OF assms(2)] ms(1) show ?thesis by (simp add: callstack_report_def)
qed

text \<open>Fact (callstack_report_sorted): the final report has one entry for each call stack whose
  expired blocks were not all freed, in ascending order of the number of blocks that
  may leak, provided these numbers stay below \<open>2 ^ 30\<close> so that the comparison cannot
  overflow.\<close>

theorem callstack_report_sorted:
  assumes "cs_table st ns"
    and small: "\<forall>n \<in> set ns. 0 \<le> may_leak (cs_mem st n) \<and> may_leak (cs_mem st n) < 2 ^ 30"
  shows "\<exists>ls. callstack_report (\<lambda>_. True) st = Return ls \<and>
     mset (map rl_stack ls) =
       mset (filter (\<lambda>n. expired_count (cs_mem st n) \<noteq> free_expired_count (cs_mem st n)) ns) \<and>
     sorted (map (\<lambda>l. sint (rl_may_leak l)) ls) \<and>
     (\<forall>l \<in> set ls. rl_stats l = cs_mem st (rl_stack l) \<and>
        rl_may_leak l = expired_count (rl_stats l) - free_expired_count (rl_stats l))"
  using assms by (rule callstack_report_spec)

theorem callstack_report_sorted_witness:
  "cs_table init_cs [] \<and> (\<exists>ls. callstack_report (\<lambda>_. True) init_cs = Return ls \<and> mset (map rl_stack ls) = {#})"
proof -
  have t: "cs_table init_cs []" by (simp add: cs_table_empty init_cs_def)
  from callstack_report_sorted [OF t] t show ?thesis by auto
qed

text \<open>Fact (callstack_print_stops): a printed backtrace shows a prefix of the stored addresses;
  it contains no address 0 and nothing after the frame of \<open>main\<close>.\<close>

theorem callstack_print_stops:
  "\<exists>rest. take (ip_num cs) (ips cs) = map fl_address (callstack_print env cs) @ rest \<and>
     0 \<notin> set (map fl_address (callstack_print env cs)) \<and>
     (rest = [] \<or> hd rest = 0 \<or>
        map_option fst (fl_proc (last (callstack_print env cs))) = Some ''main'') \<and>
     Some ''main'' \<notin> set (map (\<lambda>l. map_option fst (fl_proc l)) (butlast (callstack_print env cs)))"
proof -
  let ?ok = "\<lambda>xs ls rest. xs = map fl_address ls @ rest \<and> 0 \<notin> set (map fl_address ls) \<and>
     (rest = [] \<or> hd rest = 0 \<or> ls \<noteq> [] \<and> map_option fst (fl_proc (last ls)) = Some ''main'') \<and>
     Some ''main'' \<notin> set (map (\<lambda>l. map_option fst (fl_proc l)) (butlast ls))"
  have "\<exists>rest. ?ok xs (callstack_print_loop env xs) rest" for xs
  proof (induction xs)
    case (Cons x xs)
    then obtain rest where r: "?ok xs (callstack_print_loop env xs) rest" by blast
    consider "x = 0" | "x \<noteq> 0" "map_option fst (symtab_by_address x (g_symbol_table env)) = Some ''main''"
      | "x \<noteq> 0" "map_option fst (symtab_by_address x (g_symbol_table env)) \<noteq> Some ''main''" by blast
    then show ?case
    proof cases
      case 1
      then show ?thesis by (intro exI [of _ "x # xs"]) simp
    next
      case 2
      then show ?thesis by (intro exI [of _ xs]) (simp add: Let_def)
    next
      case 3
      with r show ?thesis
        by (intro exI [of _ rest]) (auto simp: Let_def eq_commute [of "Some ''main''"])
    qed
  qed simp
  then show ?thesis unfolding callstack_print_def by blast
qed

end
