(* ===== verification/Mem_Block.thy ===== *)
theory Mem_Block
  imports Linked_List Call_Stack
begin

text \<open>
  \<open>src/memblock.c\<close>: the memory blocks the target holds, in a hash table by pointer and
  in two lists, the active and the expired ones, both in order of allocation. The
  state extends that of \<open>callstack.c\<close>, whose counters these operations update.
  Printing appends to \<open>out\<close>. The values that \<open>time(NULL)\<close> and \<open>malloc\<close> return are
  arguments.
\<close>

datatype mlist = Active | Expire

record memblock_s =
  mb_pointer :: u64
  mb_size :: u64
  mb_create :: int
  mb_expired :: bool
  mb_callstack :: nat

datatype msg =
    AllocNull "frame_line list"
  | Expires cint u64 "frame_line list"
  | ExpiresAgain cint u64 cint
  | FreesAfter cint int
  | TooManyExpiredFree cint
  | CallStacksLeak int
  | BlocksLeaked int cint

record trk = cs_state +
  g_memblock_hash :: hheap
  mb_list :: "mlist lheap"
  mb_mem :: "nat \<Rightarrow> memblock_s"
  callstack_id :: cint
  out :: "msg list"

section \<open>Operations\<close>

definition emit :: "msg \<Rightarrow> trk \<Rightarrow> trk" where
  "emit m st = st\<lparr>out := out st @ [m]\<rparr>"

definition upd_cs :: "nat \<Rightarrow> (callstack_s \<Rightarrow> callstack_s) \<Rightarrow> trk \<Rightarrow> trk" where
  "upd_cs c f st = st\<lparr>cs_mem := (cs_mem st)(c := f (cs_mem st c))\<rparr>"

definition mb_keys :: "(nat \<Rightarrow> memblock_s) \<Rightarrow> nat \<Rightarrow> nat \<Rightarrow> u32" where
  "mb_keys mem m = word_key (mb_pointer (mem m))"

definition memblock_link :: "nat \<Rightarrow> memblock_s \<Rightarrow> trk \<Rightarrow> trk" where
  "memblock_link mb b st =
     (let st = st\<lparr>mb_mem := (mb_mem st)(mb := b)\<rparr>;
          st = st\<lparr>g_memblock_hash := hash_add (mb_keys (mb_mem st)) mb 8 (g_memblock_hash st)\<rparr>;
          st = st\<lparr>mb_list := list_add_tail (LNode mb) (LHead Active) (mb_list st)\<rparr>
      in upd_cs (mb_callstack b) (\<lambda>cs. cs\<lparr>alloc_count := alloc_count cs + 1,
            alloc_size := alloc_size cs + int_of_size (mb_size b)\<rparr>) st)"

definition memblock_new ::
  "callenv \<Rightarrow> nat option \<Rightarrow> int \<Rightarrow> u64 \<Rightarrow> u64 \<Rightarrow> trk \<Rightarrow> (int \<times> trk) run" where
  "memblock_new ce malloc_mb now pointer sz st =
     (if pointer = 0 then
        run_bind (callstack_current ce st) (\<lambda>(cs, st).
          case cs of None \<Rightarrow> Crash NullDeref
          | Some c \<Rightarrow> Return (0, emit (AllocNull (callstack_print (tables st) (cs_mem st c))) st))
      else
        case malloc_mb of
          None \<Rightarrow> Return (-1, st)
        | Some mb \<Rightarrow>
            run_bind (callstack_current ce st) (\<lambda>(cs, st).
              case cs of None \<Rightarrow> Return (-1, st)
              | Some c \<Rightarrow>
                  Return (0, memblock_link mb
                    \<lparr>mb_pointer = pointer, mb_size = sz, mb_create = now,
                     mb_expired = False, mb_callstack = c\<rparr> st)))"

definition DONOT_SHOW_AFTER_FREE_EXPIRES :: cint where
  "DONOT_SHOW_AFTER_FREE_EXPIRES = 3"

definition count_free_expired :: "memblock_s \<Rightarrow> callstack_s \<Rightarrow> callstack_s" where
  "count_free_expired b cs =
     cs\<lparr>free_expired_count := free_expired_count cs + 1,
        free_expired_size := free_expired_size cs + int_of_size (mb_size b)\<rparr>"

definition count_free :: "int \<Rightarrow> memblock_s \<Rightarrow> callstack_s \<Rightarrow> callstack_s" where
  "count_free free_time b cs =
     (let cs = cs\<lparr>free_count := free_count cs + 1\<rparr>;
          cs = cs\<lparr>free_size := free_size cs + int_of_size (mb_size b)\<rparr>;
          cs = cs\<lparr>free_total := free_total cs + int_of_long free_time\<rparr>;
          cs = (if free_time > sint (free_max cs) then cs\<lparr>free_max := int_of_long free_time\<rparr> else cs)
      in if free_min cs = 0 \<or> free_time < sint (free_min cs)
         then cs\<lparr>free_min := int_of_long free_time\<rparr> else cs)"

definition memblock_delete :: "int \<Rightarrow> nat option \<Rightarrow> trk \<Rightarrow> trk" where
  "memblock_delete now mbp st =
     (case mbp of None \<Rightarrow> st
      | Some mb \<Rightarrow>
        (let b = mb_mem st mb;
             free_time = now - mb_create b;
             c = mb_callstack b;
             st = (if mb_expired b then
                     let st = upd_cs c (count_free_expired b) st;
                         cs = cs_mem st c;
                         st = (if sint (free_expired_count cs) \<le> sint DONOT_SHOW_AFTER_FREE_EXPIRES
                               then emit (FreesAfter (cs_id cs) free_time) st else st)
                     in if free_expired_count cs = DONOT_SHOW_AFTER_FREE_EXPIRES
                        then emit (TooManyExpiredFree (cs_id cs)) st else st
                   else st);
             st = upd_cs c (count_free free_time b) st;
             st = st\<lparr>g_memblock_hash := hash_delete mb (g_memblock_hash st)\<rparr>
         in st\<lparr>mb_list := list_del (LNode mb) (mb_list st)\<rparr>))"

definition memblock_update_size :: "nat option \<Rightarrow> u64 \<Rightarrow> trk \<Rightarrow> trk" where
  "memblock_update_size mbp sz st =
     (case mbp of None \<Rightarrow> st
      | Some mb \<Rightarrow>
        (let b = mb_mem st mb;
             st = upd_cs (mb_callstack b) (\<lambda>cs. cs\<lparr>alloc_size := alloc_size cs - int_of_size (mb_size b)\<rparr>) st;
             st = upd_cs (mb_callstack b) (\<lambda>cs. cs\<lparr>alloc_size := alloc_size cs + int_of_size sz\<rparr>) st
         in st\<lparr>mb_mem := (mb_mem st)(mb := b\<lparr>mb_size := sz\<rparr>)\<rparr>))"

definition memblock_search :: "u64 \<Rightarrow> trk \<Rightarrow> nat option run" where
  "memblock_search pointer st =
     run_of_option (hash_search (mb_keys (mb_mem st)) (g_memblock_hash st) (word_key pointer) 8)"

definition count_expired :: "memblock_s \<Rightarrow> callstack_s \<Rightarrow> callstack_s" where
  "count_expired b cs =
     cs\<lparr>expired_count := expired_count cs + 1, expired_size := expired_size cs + int_of_size (mb_size b)\<rparr>"

definition memblock_expire_one :: "nat \<Rightarrow> trk \<Rightarrow> trk" where
  "memblock_expire_one mb st =
     (let st = st\<lparr>mb_mem := (mb_mem st)(mb := (mb_mem st mb)\<lparr>mb_expired := True\<rparr>)\<rparr>;
          st = st\<lparr>mb_list := list_del (LNode mb) (mb_list st)\<rparr>;
          st = st\<lparr>mb_list := list_add_tail (LNode mb) (LHead Expire) (mb_list st)\<rparr>;
          b = mb_mem st mb;
          c = mb_callstack b;
          st = upd_cs c (count_expired b) st
      in if cs_id (cs_mem st c) = 0 then
           let st = upd_cs c (\<lambda>cs. cs\<lparr>cs_id := callstack_id st\<rparr>) st;
               st = st\<lparr>callstack_id := callstack_id st + 1\<rparr>
           in emit (Expires (cs_id (cs_mem st c)) (mb_size b) (callstack_print (tables st) (cs_mem st c))) st
         else if sint (free_expired_count (cs_mem st c)) < sint DONOT_SHOW_AFTER_FREE_EXPIRES then
           emit (ExpiresAgain (cs_id (cs_mem st c)) (mb_size b) (expired_count (cs_mem st c))) st
         else st)"

text \<open>
  The loop of \<open>memblock_expire\<close>: \<open>pos\<close> and \<open>safe\<close> are the cursors of
  \<open>list_for_each_safe\<close>. The result is converted to \<open>int\<close>.
\<close>

partial_function (option) memblock_expire_loop ::
  "int \<Rightarrow> int \<Rightarrow> int \<Rightarrow> int \<Rightarrow> mlist lptr \<Rightarrow> mlist lptr \<Rightarrow> trk \<Rightarrow> (int \<times> trk) option" where
  "memblock_expire_loop now expire memblock_limit callstack_limit pos safe st =
     (if pos = LHead Active then Some (0, st)
      else
        let mb = list_entry pos; age = now - mb_create (mb_mem st mb)
        in if age < expire then Some (sint (int_of_long (expire - age + 1)), st)
           else
             let st = memblock_expire_one mb st;
                 cs = cs_mem st (mb_callstack (mb_mem st mb))
             in if sint (cs_id cs) \<ge> sint (int_of_long (callstack_limit + 1)) then
                  Some (-1, emit (CallStacksLeak callstack_limit) st)
                else if sint (expired_count cs) \<ge> memblock_limit then
                  Some (-1, emit (BlocksLeaked memblock_limit (cs_id cs)) st)
                else memblock_expire_loop now expire memblock_limit callstack_limit
                       safe (lnext (mb_list st) safe) st)"

definition memblock_expire :: "int \<Rightarrow> int \<Rightarrow> int \<Rightarrow> int \<Rightarrow> trk \<Rightarrow> (int \<times> trk) run" where
  "memblock_expire now expire memblock_limit callstack_limit st =
     (let pos = lnext (mb_list st) (LHead Active)
      in run_of_option (memblock_expire_loop now expire memblock_limit callstack_limit
            pos (lnext (mb_list st) pos) st))"

definition count_unfree :: "int \<Rightarrow> nat \<Rightarrow> trk \<Rightarrow> trk" where
  "count_unfree now mb st =
     upd_cs (mb_callstack (mb_mem st mb)) (\<lambda>cs.
       if unfree_max cs = 0 then cs\<lparr>unfree_max := int_of_long (now - mb_create (mb_mem st mb))\<rparr> else cs) st"

definition memblock_count :: "int \<Rightarrow> trk \<Rightarrow> trk run" where
  "memblock_count now st =
     run_bind (run_of_option (list_for_each (LHead Expire) (mb_list st))) (\<lambda>exp.
       let st = fold (\<lambda>p. count_unfree now (list_entry p)) exp st
       in run_bind (run_of_option (list_for_each (LHead Active) (mb_list st))) (\<lambda>act.
            Return (fold (\<lambda>p. count_unfree now (list_entry p)) act st)))"

definition init_trk :: "sym_env \<Rightarrow> trk" where
  "init_trk env = \<lparr>tables = env, g_callstack_hash = empty_hash, cs_mem = (\<lambda>_. zero_callstack),
     g_memblock_hash = empty_hash, mb_list = empty_heap,
     mb_mem = (\<lambda>_. \<lparr>mb_pointer = 0, mb_size = 0, mb_create = 0, mb_expired = False, mb_callstack = 0\<rparr>),
     callstack_id = 1, out = []\<rparr>"

section \<open>The invariant\<close>

text \<open>
  \<open>A\<close> and \<open>E\<close> are the blocks of the active and of the expired list, \<open>L\<close> those of the
  hash table (newest first), \<open>C\<close> the call stacks.
\<close>

definition trk_struct :: "trk \<Rightarrow> nat list \<Rightarrow> nat list \<Rightarrow> nat list \<Rightarrow> nat list \<Rightarrow> bool" where
  "trk_struct st A E L C \<longleftrightarrow>
     is_list (mb_list st) Active A \<and> is_list (mb_list st) Expire E \<and> set A \<inter> set E = {} \<and>
     word_table (\<lambda>m. mb_pointer (mb_mem st m)) (g_memblock_hash st) L \<and> set L = set A \<union> set E \<and>
     cs_table st C \<and> (\<forall>m \<in> set L. mb_callstack (mb_mem st m) \<in> set C) \<and>
     (\<forall>m \<in> set A. \<not> mb_expired (mb_mem st m)) \<and> (\<forall>m \<in> set E. mb_expired (mb_mem st m))"

definition booked :: "(memblock_s \<Rightarrow> cint) \<Rightarrow> nat \<Rightarrow> (nat \<Rightarrow> memblock_s) \<Rightarrow> nat set \<Rightarrow> cint" where
  "booked f c mem X = (\<Sum>m \<in> {m \<in> X. mb_callstack (mem m) = c}. f (mem m))"

definition trk_counts :: "trk \<Rightarrow> nat list \<Rightarrow> nat list \<Rightarrow> nat list \<Rightarrow> bool" where
  "trk_counts st A E C \<longleftrightarrow> (\<forall>c \<in> set C.
     alloc_count (cs_mem st c) - free_count (cs_mem st c) =
       booked (\<lambda>_. 1) c (mb_mem st) (set A \<union> set E) \<and>
     alloc_size (cs_mem st c) - free_size (cs_mem st c) =
       booked (\<lambda>b. int_of_size (mb_size b)) c (mb_mem st) (set A \<union> set E) \<and>
     expired_count (cs_mem st c) - free_expired_count (cs_mem st c) =
       booked (\<lambda>_. 1) c (mb_mem st) (set E))"

definition trk_inv :: "trk \<Rightarrow> nat list \<Rightarrow> nat list \<Rightarrow> nat list \<Rightarrow> nat list \<Rightarrow> bool" where
  "trk_inv st A E L C \<longleftrightarrow> trk_struct st A E L C \<and> trk_counts st A E C"

text \<open>The blocks are in order of allocation, none from the future.\<close>

definition trk_time :: "trk \<Rightarrow> nat list \<Rightarrow> nat list \<Rightarrow> int \<Rightarrow> bool" where
  "trk_time st A E now \<longleftrightarrow> sorted (map (\<lambda>m. mb_create (mb_mem st m)) (E @ A)) \<and>
     (\<forall>m \<in> set (E @ A). mb_create (mb_mem st m) \<le> now)"

lemma trk_inv_init: "trk_inv (init_trk env) [] [] [] []"
  by (simp add: trk_inv_def trk_struct_def trk_counts_def init_trk_def is_list_empty_heap
      word_table_def hash_rep_empty cs_table_empty)

lemma booked_insert:
  assumes "finite X" "m \<notin> X"
  shows "booked f c (mem(m := b)) (insert m X) = booked f c mem X + (if mb_callstack b = c then f b else 0)"
proof -
  have e: "{k \<in> insert m X. mb_callstack ((mem(m := b)) k) = c} =
      (if mb_callstack b = c then insert m {k \<in> X. mb_callstack (mem k) = c} else {k \<in> X. mb_callstack (mem k) = c})"
    using assms(2) by auto
  have s: "(\<Sum>k \<in> {k \<in> X. mb_callstack (mem k) = c}. f ((mem(m := b)) k)) =
      (\<Sum>k \<in> {k \<in> X. mb_callstack (mem k) = c}. f (mem k))"
    using assms(2) by (intro sum.cong) auto
  show ?thesis
    using assms s unfolding booked_def e by (auto simp: add.commute)
qed

lemma booked_remove:
  assumes "finite X" "m \<in> X"
  shows "booked f c mem (X - {m}) = booked f c mem X - (if mb_callstack (mem m) = c then f (mem m) else 0)"
proof -
  have "booked f c (mem(m := mem m)) (insert m (X - {m})) =
      booked f c mem (X - {m}) + (if mb_callstack (mem m) = c then f (mem m) else 0)"
    by (rule booked_insert) (use assms in auto)
  with assms show ?thesis by (simp add: insert_absorb)
qed

lemma booked_update:
  assumes "finite X" "m \<in> X" "mb_callstack b = mb_callstack (mem m)"
  shows "booked f c (mem(m := b)) X =
     booked f c mem X + (if mb_callstack b = c then f b - f (mem m) else 0)"
proof -
  have "booked f c (mem(m := b)) (insert m (X - {m})) =
      booked f c mem (X - {m}) + (if mb_callstack b = c then f b else 0)"
    by (rule booked_insert) (use assms in auto)
  with assms show ?thesis by (simp add: insert_absorb booked_remove)
qed

lemma booked_update_same:
  assumes "\<And>k. k \<in> X \<Longrightarrow> mb_callstack (mem' k) = mb_callstack (mem k) \<and> f (mem' k) = f (mem k)"
  shows "booked f c mem' X = booked f c mem X"
  unfolding booked_def using assms by (intro sum.cong) auto

lemma booked_empty: "(\<And>k. k \<in> X \<Longrightarrow> mb_callstack (mem k) \<noteq> c) \<Longrightarrow> booked f c mem X = 0"
  by (simp add: booked_def) (metis (mono_tags, lifting) Collect_empty_eq sum.empty)

section \<open>Frame facts\<close>

lemma emit_fields [simp, trk_simps]:
  "tables (emit m st) = tables st" "g_callstack_hash (emit m st) = g_callstack_hash st"
  "cs_mem (emit m st) = cs_mem st" "g_memblock_hash (emit m st) = g_memblock_hash st"
  "mb_list (emit m st) = mb_list st" "mb_mem (emit m st) = mb_mem st"
  "callstack_id (emit m st) = callstack_id st" "out (emit m st) = out st @ [m]"
  by (simp_all add: emit_def)

lemma upd_cs_fields [simp, trk_simps]:
  "tables (upd_cs c f st) = tables st" "g_callstack_hash (upd_cs c f st) = g_callstack_hash st"
  "cs_mem (upd_cs c f st) = (cs_mem st)(c := f (cs_mem st c))"
  "g_memblock_hash (upd_cs c f st) = g_memblock_hash st"
  "mb_list (upd_cs c f st) = mb_list st" "mb_mem (upd_cs c f st) = mb_mem st"
  "callstack_id (upd_cs c f st) = callstack_id st" "out (upd_cs c f st) = out st"
  by (simp_all add: upd_cs_def)

lemma add_callstack_trk [simp, trk_simps]:
  "g_memblock_hash (add_callstack ce c st) = g_memblock_hash (st :: trk)"
  "mb_list (add_callstack ce c st) = mb_list st" "mb_mem (add_callstack ce c st) = mb_mem st"
  "callstack_id (add_callstack ce c st) = callstack_id st" "out (add_callstack ce c st) = out st"
  by (simp_all add: add_callstack_def Let_def)

lemma count_free_fields [simp]:
  "alloc_count (count_free t b cs) = alloc_count cs" "alloc_size (count_free t b cs) = alloc_size cs"
  "expired_count (count_free t b cs) = expired_count cs" "expired_size (count_free t b cs) = expired_size cs"
  "free_expired_count (count_free t b cs) = free_expired_count cs"
  "free_expired_size (count_free t b cs) = free_expired_size cs"
  "free_count (count_free t b cs) = free_count cs + 1"
  "free_size (count_free t b cs) = free_size cs + int_of_size (mb_size b)"
  "cs_id (count_free t b cs) = cs_id cs" "ips (count_free t b cs) = ips cs"
  "ip_num (count_free t b cs) = ip_num cs" "unfree_max (count_free t b cs) = unfree_max cs"
  by (simp_all add: count_free_def Let_def)

lemma count_free_expired_fields [simp]:
  "alloc_count (count_free_expired b cs) = alloc_count cs" "alloc_size (count_free_expired b cs) = alloc_size cs"
  "expired_count (count_free_expired b cs) = expired_count cs"
  "expired_size (count_free_expired b cs) = expired_size cs"
  "free_count (count_free_expired b cs) = free_count cs" "free_size (count_free_expired b cs) = free_size cs"
  "free_expired_count (count_free_expired b cs) = free_expired_count cs + 1"
  "free_expired_size (count_free_expired b cs) = free_expired_size cs + int_of_size (mb_size b)"
  "free_min (count_free_expired b cs) = free_min cs" "free_max (count_free_expired b cs) = free_max cs"
  "cs_id (count_free_expired b cs) = cs_id cs" "ips (count_free_expired b cs) = ips cs"
  "ip_num (count_free_expired b cs) = ip_num cs" "unfree_max (count_free_expired b cs) = unfree_max cs"
  by (simp_all add: count_free_expired_def)

lemma count_expired_fields [simp]:
  "alloc_count (count_expired b cs) = alloc_count cs" "alloc_size (count_expired b cs) = alloc_size cs"
  "free_count (count_expired b cs) = free_count cs" "free_size (count_expired b cs) = free_size cs"
  "free_expired_count (count_expired b cs) = free_expired_count cs"
  "expired_count (count_expired b cs) = expired_count cs + 1"
  "expired_size (count_expired b cs) = expired_size cs + int_of_size (mb_size b)"
  "free_expired_size (count_expired b cs) = free_expired_size cs"
  "free_min (count_expired b cs) = free_min cs" "free_max (count_expired b cs) = free_max cs"
  "unfree_max (count_expired b cs) = unfree_max cs"
  "cs_id (count_expired b cs) = cs_id cs" "ips (count_expired b cs) = ips cs"
  "ip_num (count_expired b cs) = ip_num cs"
  by (simp_all add: count_expired_def)

text \<open>The effect of \<open>memblock_delete\<close> and \<open>memblock_expire_one\<close>, field by field.\<close>

lemma memblock_delete_fields [trk_simps]:
  "tables (memblock_delete now (Some mb) st) = tables st"
  "g_callstack_hash (memblock_delete now (Some mb) st) = g_callstack_hash st"
  "cs_mem (memblock_delete now (Some mb) st) = (cs_mem st)(mb_callstack (mb_mem st mb) :=
     count_free (now - mb_create (mb_mem st mb)) (mb_mem st mb)
       ((if mb_expired (mb_mem st mb) then count_free_expired (mb_mem st mb) else id)
          (cs_mem st (mb_callstack (mb_mem st mb)))))"
  "g_memblock_hash (memblock_delete now (Some mb) st) = hash_delete mb (g_memblock_hash st)"
  "mb_list (memblock_delete now (Some mb) st) = list_del (LNode mb) (mb_list st)"
  "mb_mem (memblock_delete now (Some mb) st) = mb_mem st"
  "callstack_id (memblock_delete now (Some mb) st) = callstack_id st"
  by (simp_all add: memblock_delete_def Let_def)

lemma memblock_expire_one_fields [trk_simps]:
  "tables (memblock_expire_one mb st) = tables st"
  "g_callstack_hash (memblock_expire_one mb st) = g_callstack_hash st"
  "g_memblock_hash (memblock_expire_one mb st) = g_memblock_hash st"
  "mb_list (memblock_expire_one mb st) =
     list_add_tail (LNode mb) (LHead Expire) (list_del (LNode mb) (mb_list st))"
  "mb_mem (memblock_expire_one mb st) = (mb_mem st)(mb := (mb_mem st mb)\<lparr>mb_expired := True\<rparr>)"
  "cs_mem (memblock_expire_one mb st) = (cs_mem st)(mb_callstack (mb_mem st mb) :=
     (let cs = count_expired ((mb_mem st mb)\<lparr>mb_expired := True\<rparr>) (cs_mem st (mb_callstack (mb_mem st mb)))
      in if cs_id cs = 0 then cs\<lparr>cs_id := callstack_id st\<rparr> else cs))"
  "callstack_id (memblock_expire_one mb st) =
     (if cs_id (cs_mem st (mb_callstack (mb_mem st mb))) = 0 then callstack_id st + 1 else callstack_id st)"
  by (simp_all add: memblock_expire_one_def Let_def)

section \<open>Preservation of the invariant\<close>

lemma trk_structD:
  assumes "trk_struct st A E L C"
  shows "distinct A" "distinct E" "distinct L" "set L = set A \<union> set E" "set A \<inter> set E = {}"
  using assms dll.holds_distinct wt.holds_distinct by (auto simp: trk_struct_def)

lemma trk_struct_frame:
  assumes "trk_struct st A E L C"
    and "mb_list st' = mb_list st" "g_memblock_hash st' = g_memblock_hash st"
    and "g_callstack_hash st' = g_callstack_hash st"
    and "\<And>m. m \<in> set L \<Longrightarrow> mb_pointer (mb_mem st' m) = mb_pointer (mb_mem st m) \<and>
       mb_callstack (mb_mem st' m) = mb_callstack (mb_mem st m) \<and> mb_expired (mb_mem st' m) = mb_expired (mb_mem st m)"
    and "\<And>c. ips (cs_mem st' c) = ips (cs_mem st c) \<and> ip_num (cs_mem st' c) = ip_num (cs_mem st c)"
  shows "trk_struct st' A E L C"
proof -
  have "word_table (\<lambda>m. mb_pointer (mb_mem st' m)) (g_memblock_hash st) L =
      word_table (\<lambda>m. mb_pointer (mb_mem st m)) (g_memblock_hash st) L"
    by (rule wt.holds_cong) (use assms(5) in auto)
  moreover have "cs_table st' C"
    by (rule cs_table_frame [of st]) (use assms in \<open>auto simp: trk_struct_def\<close>)
  ultimately show ?thesis
    using assms by (simp add: trk_struct_def)
qed

lemma trk_struct_link:
  assumes inv: "trk_struct st A E L C" and new: "mb \<notin> set L"
    and "mb_callstack b \<in> set C" and "\<not> mb_expired b"
  shows "trk_struct (memblock_link mb b st) (A @ [mb]) E (mb # L) C"
proof -
  let ?st = "memblock_link mb b st"
  have AE: "mb \<notin> set A" "mb \<notin> set E" "set A \<inter> set E = {}"
    using new trk_structD [OF inv] by auto
  have f: "mb_list ?st = list_add_tail (LNode mb) (LHead Active) (mb_list st)"
    "mb_mem ?st = (mb_mem st)(mb := b)"
    "g_memblock_hash ?st = hash_add (mb_keys (mb_mem ?st)) mb 8 (g_memblock_hash st)"
    "g_callstack_hash ?st = g_callstack_hash st"
    by (simp_all add: memblock_link_def Let_def)
  have "word_table (\<lambda>m. mb_pointer (mb_mem ?st m)) (g_memblock_hash st) L"
    using inv new by (subst wt.holds_cong [of L _ "\<lambda>m. mb_pointer (mb_mem st m)"])
      (auto simp: f trk_struct_def)
  from wt.holds_insert [OF this new]
  have tab: "word_table (\<lambda>m. mb_pointer (mb_mem ?st m)) (g_memblock_hash ?st) (mb # L)"
    by (simp add: f(3) mb_keys_def [abs_def])
  have cs: "cs_table ?st C"
    by (rule cs_table_frame [of st])
       (use inv in \<open>auto simp: trk_struct_def memblock_link_def Let_def\<close>)
  have "is_list (mb_list ?st) Active (A @ [mb])"
    unfolding f(1) using inv AE by (intro dll.holds_append) (simp_all add: trk_struct_def)
  moreover have "is_list (mb_list ?st) Expire E"
    unfolding f(1) using inv AE by (intro dll.append_other [of _ _ A]) (simp_all add: trk_struct_def)
  ultimately show ?thesis
    using inv AE assms(3,4) tab cs by (auto simp: trk_struct_def f(2))
qed

lemma trk_counts_link:
  assumes inv: "trk_struct st A E L C" "trk_counts st A E C" and new: "mb \<notin> set L"
  shows "trk_counts (memblock_link mb b st) (A @ [mb]) E C"
proof -
  let ?st = "memblock_link mb b st"
  have AE: "mb \<notin> set A \<union> set E" using new trk_structD [OF inv(1)] by auto
  have X: "set (A @ [mb]) \<union> set E = insert mb (set A \<union> set E)" by auto
  have E: "booked f c (mb_mem ?st) (set E) = booked f c (mb_mem st) (set E)" for f c
    using AE by (intro booked_update_same) (auto simp: memblock_link_def Let_def)
  have I: "booked f c (mb_mem ?st) (set (A @ [mb]) \<union> set E) =
      booked f c (mb_mem st) (set A \<union> set E) + (if mb_callstack b = c then f b else 0)" for f c
    unfolding X using booked_insert [of "set A \<union> set E" mb f c "mb_mem st" b] AE
    by (simp add: memblock_link_def Let_def)
  show ?thesis
    using inv(2) unfolding trk_counts_def I E
    by (auto simp: memblock_link_def Let_def algebra_simps)
qed

lemma trk_struct_delete:
  assumes inv: "trk_struct st A E L C" and mb: "mb \<in> set L"
  shows "trk_struct (memblock_delete now (Some mb) st) (remove1 mb A) (remove1 mb E) (removeAll mb L) C"
proof -
  let ?st = "memblock_delete now (Some mb) st"
  note d = trk_structD [OF inv]
  have lists: "is_list (mb_list ?st) Active (remove1 mb A) \<and> is_list (mb_list ?st) Expire (remove1 mb E)"
  proof (cases "mb \<in> set A")
    case True
    with d have "mb \<notin> set E" by auto
    with True d(5) inv show ?thesis
      using dll.holds_unlink [of "mb_list st" Active A mb] dll.unlink_other [of "mb_list st" Active A Expire E mb]
      by (simp add: trk_simps trk_struct_def remove1_idem)
  next
    case False
    with d mb have "mb \<in> set E" by auto
    with False d(5) inv show ?thesis
      using dll.holds_unlink [of "mb_list st" Expire E mb] dll.unlink_other [of "mb_list st" Expire E Active A mb]
      by (simp add: trk_simps trk_struct_def remove1_idem inf_commute)
  qed
  have tab: "word_table (\<lambda>m. mb_pointer (mb_mem ?st m)) (g_memblock_hash ?st) (removeAll mb L)"
    using inv mb wt.holds_delete by (simp add: trk_simps trk_struct_def)
  have cs: "cs_table ?st C"
    by (rule cs_table_frame [of st]) (use inv in \<open>auto simp: trk_struct_def trk_simps\<close>)
  show ?thesis
    using lists tab cs inv d by (auto simp: trk_struct_def memblock_delete_fields(6))
qed

lemma trk_counts_delete:
  assumes inv: "trk_struct st A E L C" "trk_counts st A E C" and mb: "mb \<in> set L"
  shows "trk_counts (memblock_delete now (Some mb) st) (remove1 mb A) (remove1 mb E) C"
proof -
  let ?st = "memblock_delete now (Some mb) st"
  note d = trk_structD [OF inv(1)]
  have X: "set (remove1 mb A) \<union> set (remove1 mb E) = set A \<union> set E - {mb}"
    using d by auto
  have R: "booked f c (mb_mem ?st) (set A \<union> set E - {mb}) = booked f c (mb_mem st) (set A \<union> set E) -
      (if mb_callstack (mb_mem st mb) = c then f (mb_mem st mb) else 0)" for f c
    using mb d by (simp add: trk_simps booked_remove)
  have exp: "mb_expired (mb_mem st mb) \<longleftrightarrow> mb \<in> set E"
    using inv(1) mb d by (auto simp: trk_struct_def)
  have E: "booked f c (mb_mem ?st) (set (remove1 mb E)) = booked f c (mb_mem st) (set E) -
      (if mb_expired (mb_mem st mb) \<and> mb_callstack (mb_mem st mb) = c then f (mb_mem st mb) else 0)" for f c
    using exp booked_remove [of "set E" mb f c "mb_mem st"] d
    by (cases "mb \<in> set E") (auto simp: trk_simps remove1_idem)
  show ?thesis
    using inv(2) unfolding trk_counts_def X R E
    by (auto simp: trk_simps algebra_simps)
qed

lemma trk_struct_expire_one:
  assumes inv: "trk_struct st A E L C" and mb: "mb \<in> set A"
  shows "trk_struct (memblock_expire_one mb st) (remove1 mb A) (E @ [mb]) L C"
proof -
  let ?st = "memblock_expire_one mb st"
  note d = trk_structD [OF inv]
  have lists: "is_list (mb_list ?st) Active (remove1 mb A)" "is_list (mb_list ?st) Expire (E @ [mb])"
    using dll.move_node [of "mb_list st" Active A Expire E mb] inv mb d
    by (simp_all add: trk_simps trk_struct_def)
  have tab: "word_table (\<lambda>m. mb_pointer (mb_mem ?st m)) (g_memblock_hash ?st) L"
    using inv by (subst wt.holds_cong [of L _ "\<lambda>m. mb_pointer (mb_mem st m)"])
      (auto simp: trk_simps trk_struct_def)
  have cs: "cs_table ?st C"
    by (rule cs_table_frame [of st]) (use inv in \<open>auto simp: trk_struct_def trk_simps Let_def\<close>)
  have "mb \<notin> set E" using mb d by auto
  then show ?thesis
    using lists tab cs inv d mb by (auto simp: trk_struct_def memblock_expire_one_fields(5))
qed

lemma trk_counts_expire_one:
  assumes inv: "trk_struct st A E L C" "trk_counts st A E C" and mb: "mb \<in> set A"
  shows "trk_counts (memblock_expire_one mb st) (remove1 mb A) (E @ [mb]) C"
proof -
  let ?st = "memblock_expire_one mb st" and ?b = "(mb_mem st mb)\<lparr>mb_expired := True\<rparr>"
  note d = trk_structD [OF inv(1)]
  have X: "set (remove1 mb A) \<union> set (E @ [mb]) = set A \<union> set E" using d mb by auto
  have R: "booked f c (mb_mem ?st) (set A \<union> set E) = booked f c (mb_mem st) (set A \<union> set E)"
    if "\<And>b. f (b\<lparr>mb_expired := True\<rparr>) = f b" for f c
    using that by (intro booked_update_same) (auto simp: trk_simps)
  have "mb \<notin> set E" using mb d by auto
  then have E: "booked f c (mb_mem ?st) (set (E @ [mb])) = booked f c (mb_mem st) (set E) +
      (if mb_callstack (mb_mem st mb) = c then f ?b else 0)" for f c
    using booked_insert [of "set E" mb f c "mb_mem st" ?b] by (simp add: trk_simps)
  have "booked (\<lambda>_. 1) c (mb_mem ?st) (set A \<union> set E) = booked (\<lambda>_. 1) c (mb_mem st) (set A \<union> set E)"
    "booked (\<lambda>b. int_of_size (mb_size b)) c (mb_mem ?st) (set A \<union> set E) =
      booked (\<lambda>b. int_of_size (mb_size b)) c (mb_mem st) (set A \<union> set E)" for c
    by (rule R, simp)+
  then show ?thesis
    using inv(2) unfolding trk_counts_def X E
    by (auto simp: memblock_expire_one_fields(6) Let_def algebra_simps)
qed

lemma trk_inv_update_size:
  assumes inv: "trk_inv st A E L C" and mb: "\<And>m. mbp = Some m \<Longrightarrow> m \<in> set L"
  shows "trk_inv (memblock_update_size mbp sz st) A E L C"
proof (cases mbp)
  case None
  with inv show ?thesis by (simp add: memblock_update_size_def)
next
  case (Some m)
  let ?st = "memblock_update_size mbp sz st" and ?b = "(mb_mem st m)\<lparr>mb_size := sz\<rparr>"
  have s: "trk_struct st A E L C" and n: "trk_counts st A E C" using inv by (simp_all add: trk_inv_def)
  have mem: "mb_mem ?st = (mb_mem st)(m := ?b)"
    using Some by (simp add: memblock_update_size_def Let_def)
  have "trk_struct ?st A E L C"
    by (rule trk_struct_frame [OF s]) (simp_all add: memblock_update_size_def Let_def Some)
  moreover have "m \<in> set A \<union> set E" using mb Some trk_structD [OF s] by auto
  then have "booked f c (mb_mem ?st) (set A \<union> set E) = booked f c (mb_mem st) (set A \<union> set E) +
      (if mb_callstack (mb_mem st m) = c then f ?b - f (mb_mem st m) else 0)" for f c
    unfolding mem using booked_update [of "set A \<union> set E" m ?b "mb_mem st" f c] by simp
  moreover have "booked (\<lambda>_. 1) c (mb_mem ?st) (set E) = booked (\<lambda>_. 1) c (mb_mem st) (set E)" for c
    by (intro booked_update_same) (auto simp: mem)
  ultimately show ?thesis
    using n unfolding trk_inv_def trk_counts_def
    by (auto simp: memblock_update_size_def Let_def Some algebra_simps)
qed

lemma trk_inv_emit: "trk_inv st A E L C \<Longrightarrow> trk_inv (emit m st) A E L C"
  unfolding trk_inv_def by (auto simp: trk_counts_def intro: trk_struct_frame)

lemma trk_inv_add_callstack:
  assumes inv: "trk_inv st A E L C" and new: "c \<notin> set C"
    and miss: "find (\<lambda>n. stack_matches (ce_behind ce n) (ips (cs_mem st n)) (ce_entry ce # ce_frames ce)) C = None"
  shows "trk_inv (add_callstack ce c st) A E L (c # C)"
proof -
  let ?st = "add_callstack ce c st"
  have s: "trk_struct st A E L C" and n: "trk_counts st A E C" using inv by (simp_all add: trk_inv_def)
  have cs: "cs_table ?st (c # C)"
    using s miss new by (intro cs_table_add) (simp_all add: trk_struct_def)
  have no: "booked f c (mb_mem st) X = 0" if "X \<subseteq> set A \<union> set E" for f X
    using s new that by (intro booked_empty) (auto simp: trk_struct_def)
  have "trk_struct ?st A E L (c # C)"
    using s cs by (auto simp: trk_struct_def)
  moreover have "trk_counts ?st A E (c # C)"
    using n new no by (auto simp: trk_counts_def zero_callstack_def)
  ultimately show ?thesis by (simp add: trk_inv_def)
qed

text \<open>A lookup of the current call stack, seen from the tracker.\<close>

lemma callstack_current_inv:
  assumes inv: "trk_inv st A E L C" and fresh: "\<And>c. ce_malloc ce = Some c \<Longrightarrow> c \<notin> set C"
  shows "\<exists>r st' C'. callstack_current ce st = Return (r, st') \<and> trk_inv st' A E L C' \<and>
     mb_mem st' = mb_mem st \<and> set C \<subseteq> set C' \<and> (\<forall>c. r = Some c \<longrightarrow> c \<in> set C') \<and>
     (r = None \<longrightarrow> ce_malloc ce = None) \<and> callstack_id st' = callstack_id st \<and> out st' = out st \<and>
     (\<forall>c \<in> set C. cs_mem st' c = cs_mem st c) \<and>
     (\<forall>c \<in> set C' - set C. cs_id (cs_mem st' c) = 0 \<and> expired_count (cs_mem st' c) = 0)"
proof -
  let ?find = "find (\<lambda>n. stack_matches (ce_behind ce n) (ips (cs_mem st n)) (ce_entry ce # ce_frames ce)) C"
  have t: "cs_table st C" using inv by (simp add: trk_inv_def trk_struct_def)
  consider (found) n where "?find = Some n" | (nomem) "?find = None" "ce_malloc ce = None"
    | (new) c where "?find = None" "ce_malloc ce = Some c"
    by (cases ?find; cases "ce_malloc ce") blast+
  then show ?thesis
  proof cases
    case found
    with inv find_Some_set [OF found] show ?thesis
      unfolding callstack_current_cases [OF t] by (intro exI [of _ C] exI conjI) auto
  next
    case nomem
    with inv show ?thesis
      unfolding callstack_current_cases [OF t] by (intro exI [of _ C] exI conjI) auto
  next
    case new
    then have c: "c \<notin> set C" using fresh by blast
    from trk_inv_add_callstack [OF inv c new(1)] new c show ?thesis
      unfolding callstack_current_cases [OF t]
      by (intro exI [of _ "Some c"] exI [of _ "add_callstack ce c st"] exI [of _ "c # C"] conjI)
         (auto simp: zero_callstack_def)
  qed
qed

lemma memblock_search_find:
  assumes "trk_inv st A E L C"
  shows "memblock_search p st = Return (find (\<lambda>m. mb_pointer (mb_mem st m) = p) L)"
  using assms wt.lookup_find [of "\<lambda>m. mb_pointer (mb_mem st m)" "g_memblock_hash st" L p]
  by (simp add: memblock_search_def mb_keys_def [abs_def] trk_inv_def trk_struct_def)

lemma trk_inv_link:
  assumes "trk_inv st A E L C" "mb \<notin> set L" "mb_callstack b \<in> set C" "\<not> mb_expired b"
  shows "trk_inv (memblock_link mb b st) (A @ [mb]) E (mb # L) C"
  using assms by (auto simp: trk_inv_def intro: trk_struct_link trk_counts_link)

lemma trk_inv_delete:
  assumes "trk_inv st A E L C" "mb \<in> set L"
  shows "trk_inv (memblock_delete now (Some mb) st) (remove1 mb A) (remove1 mb E) (removeAll mb L) C"
  using assms by (auto simp: trk_inv_def intro: trk_struct_delete trk_counts_delete)

lemma trk_inv_expire_one:
  assumes "trk_inv st A E L C" "mb \<in> set A"
  shows "trk_inv (memblock_expire_one mb st) (remove1 mb A) (E @ [mb]) L C"
  using assms by (auto simp: trk_inv_def intro: trk_struct_expire_one trk_counts_expire_one)

text \<open>Every path of \<open>memblock_new\<close>.\<close>

lemma memblock_new_cases:
  assumes inv: "trk_inv st A E L C"
    and mb: "\<forall>m. malloc_mb = Some m \<longrightarrow> m \<notin> set L"
    and cs: "\<forall>c. ce_malloc ce = Some c \<longrightarrow> c \<notin> set C"
  shows "pointer = 0 \<and> ce_malloc ce = None \<and> memblock_new ce malloc_mb now pointer sz st = Crash NullDeref \<or>
    (\<exists>r st' A' L' C'. memblock_new ce malloc_mb now pointer sz st = Return (r, st') \<and>
       trk_inv st' A' E L' C' \<and> set C \<subseteq> set C' \<and> (\<forall>m \<in> set L. mb_mem st' m = mb_mem st m) \<and>
       callstack_id st' = callstack_id st \<and>
       (r = 0 \<and> pointer = 0 \<and> A' = A \<and> L' = L \<or>
        r = -1 \<and> pointer \<noteq> 0 \<and> A' = A \<and> L' = L \<and> (malloc_mb = None \<or> ce_malloc ce = None) \<or>
        (\<exists>m c. r = 0 \<and> pointer \<noteq> 0 \<and> malloc_mb = Some m \<and> A' = A @ [m] \<and> L' = m # L \<and> c \<in> set C' \<and>
           mb_mem st' m = \<lparr>mb_pointer = pointer, mb_size = sz, mb_create = now,
             mb_expired = False, mb_callstack = c\<rparr>)))"
proof -
  from callstack_current_inv [OF inv cs [rule_format]] obtain r st1 C1 where cur: "callstack_current ce st = Return (r, st1)"
    and i1: "trk_inv st1 A E L C1" and m1: "mb_mem st1 = mb_mem st" and sub: "set C \<subseteq> set C1"
    and r: "\<And>c. r = Some c \<Longrightarrow> c \<in> set C1" "r = None \<Longrightarrow> ce_malloc ce = None"
    and id1: "callstack_id st1 = callstack_id st" by blast
  consider "pointer = 0" "r = None" | c where "pointer = 0" "r = Some c" | "pointer \<noteq> 0" "malloc_mb = None"
    | m where "pointer \<noteq> 0" "malloc_mb = Some m" "r = None"
    | m c where "pointer \<noteq> 0" "malloc_mb = Some m" "r = Some c" by (cases r; cases malloc_mb) blast+
  then show ?thesis
  proof cases
    case 1
    with cur r(2) show ?thesis by (simp add: memblock_new_def)
  next
    case 2
    from 2 cur i1 m1 sub id1 show ?thesis
      by (intro disjI2) (auto simp: memblock_new_def intro!: exI [of _ A] exI [of _ L] exI [of _ C1] trk_inv_emit)
  next
    case 3
    with inv show ?thesis
      by (intro disjI2) (auto simp: memblock_new_def intro!: exI [of _ A] exI [of _ L] exI [of _ C])
  next
    case 4
    with cur i1 m1 sub id1 r show ?thesis
      by (intro disjI2) (auto simp: memblock_new_def intro!: exI [of _ A] exI [of _ L] exI [of _ C1])
  next
    case 5
    let ?b = "\<lparr>mb_pointer = pointer, mb_size = sz, mb_create = now, mb_expired = False, mb_callstack = c\<rparr>"
    have "m \<notin> set L" using 5 mb by blast
    moreover have "c \<in> set C1" using 5 r by blast
    ultimately have "trk_inv (memblock_link m ?b st1) (A @ [m]) E (m # L) C1"
      using i1 by (intro trk_inv_link) auto
    moreover have "mb_mem (memblock_link m ?b st1) = (mb_mem st)(m := ?b)"
      "callstack_id (memblock_link m ?b st1) = callstack_id st"
      by (simp_all add: memblock_link_def Let_def m1 id1)
    moreover have "memblock_new ce malloc_mb now pointer sz st = Return (0, memblock_link m ?b st1)"
      using 5 cur by (simp add: memblock_new_def)
    ultimately show ?thesis
      using 5 sub \<open>m \<notin> set L\<close> \<open>c \<in> set C1\<close>
      by (intro disjI2 exI [of _ 0] exI [of _ "memblock_link m ?b st1"] exI [of _ "A @ [m]"]
            exI [of _ "m # L"] exI [of _ C1]) auto
  qed
qed

text \<open>C16 (memblock_new_tracks): an allocation that gets its two structures is recorded: it is
  appended to the active list, a search for the pointer finds exactly this block, the
  size, the time and a call stack are stored, and the books of all call stacks agree
  with the live blocks again.\<close>

theorem memblock_new_tracks:
  assumes inv: "trk_inv st A E L C" and "p \<noteq> 0" and "m \<notin> set L" and "c \<notin> set C"
    and "ce_malloc ce = Some c"
  shows "\<exists>st' C'. memblock_new ce (Some m) now p sz st = Return (0, st') \<and>
     trk_inv st' (A @ [m]) E (m # L) C' \<and> memblock_search p st' = Return (Some m) \<and>
     mb_size (mb_mem st' m) = sz \<and> mb_create (mb_mem st' m) = now \<and> \<not> mb_expired (mb_mem st' m) \<and>
     mb_callstack (mb_mem st' m) \<in> set C' \<and> (\<forall>k \<in> set L. mb_mem st' k = mb_mem st k)"
proof -
  from memblock_new_cases [OF inv, of "Some m" ce p now sz] assms(2-5)
  obtain st' C' k where st': "memblock_new ce (Some m) now p sz st = Return (0, st')"
    "trk_inv st' (A @ [m]) E (m # L) C'" "\<forall>k \<in> set L. mb_mem st' k = mb_mem st k" "k \<in> set C'"
    "mb_mem st' m = \<lparr>mb_pointer = p, mb_size = sz, mb_create = now, mb_expired = False, mb_callstack = k\<rparr>"
    by auto
  with memblock_search_find [OF st'(2), of p] show ?thesis
    by (intro exI [of _ st'] exI [of _ C']) auto
qed

definition env0 :: sym_env where
  "env0 = \<lparr>g_addr_maps = [], g_symbol_table = [], g_dwarf_dies = []\<rparr>"

theorem memblock_new_tracks_witness:
  "\<exists>st' C'. memblock_new (demo_ce [0x10] 1) (Some 7) 100 0x5000 24 (init_trk env0) = Return (0, st') \<and>
     trk_inv st' [7] [] [7] C' \<and> memblock_search 0x5000 st' = Return (Some 7) \<and> mb_size (mb_mem st' 7) = 24"
proof -
  have "ce_malloc (demo_ce [0x10] 1) = Some 1" by (simp add: demo_ce_def)
  from memblock_new_tracks [OF trk_inv_init [of env0] _ _ _ this, of "0x5000" 7 100 24] show ?thesis by auto
qed

text \<open>C17 (memblock_delete_untracks): freeing the block a search found takes it out of its list
  and of the hash table, books it as freed (and, if it had expired, as freed after
  expiry), and leaves the invariant.\<close>

theorem memblock_delete_untracks:
  assumes inv: "trk_inv st A E L C" and found: "memblock_search p st = Return (Some m)"
  shows "trk_inv (memblock_delete now (Some m) st) (remove1 m A) (remove1 m E) (removeAll m L) C \<and>
     m \<notin> set (removeAll m L) \<and> mb_pointer (mb_mem st m) = p \<and>
     (\<forall>k. mb_mem (memblock_delete now (Some m) st) k = mb_mem st k)"
proof -
  from found have "m \<in> set L" "mb_pointer (mb_mem st m) = p"
    by (auto simp: memblock_search_find [OF inv] dest: find_Some_set)
  with trk_inv_delete [OF inv] show ?thesis by (simp add: trk_simps)
qed

text \<open>A concrete state with one live block, allocated at time 100, for the examples.\<close>

definition one_block :: trk where
  "one_block = memblock_link 7
     \<lparr>mb_pointer = 0x5000, mb_size = 24, mb_create = 100, mb_expired = False, mb_callstack = 3\<rparr>
     (add_callstack (demo_ce [0x10] 3) 3 (init_trk env0))"

lemma one_block_inv: "trk_inv one_block [7] [] [7] [3]"
proof -
  have "trk_inv (add_callstack (demo_ce [0x10] 3) 3 (init_trk env0)) [] [] [] [3]"
    by (rule trk_inv_add_callstack [OF trk_inv_init]) simp_all
  then show ?thesis
    unfolding one_block_def
    by (rule trk_inv_link [of _ "[]" "[]" "[]", simplified]) simp_all
qed

lemma one_block_fields:
  "mb_mem one_block 7 =
     \<lparr>mb_pointer = 0x5000, mb_size = 24, mb_create = 100, mb_expired = False, mb_callstack = 3\<rparr>"
  "cs_mem one_block 3 = zero_callstack\<lparr>ips := [0x400, 0x10], ip_num := 2, alloc_count := 1, alloc_size := 24\<rparr>"
  "callstack_id one_block = 1" "tables one_block = env0"
  by (simp_all add: one_block_def memblock_link_def Let_def demo_ce_def zero_callstack_def
      init_trk_def int_of_size_def)

lemma one_block_search: "memblock_search 0x5000 one_block = Return (Some 7)"
  by (simp add: memblock_search_find [OF one_block_inv] one_block_fields)

theorem memblock_delete_untracks_witness:
  "memblock_search 0x5000 one_block = Return (Some 7) \<and>
   trk_inv (memblock_delete 105 (Some 7) one_block) [] [] [] [3]"
  using memblock_delete_untracks [OF one_block_inv one_block_search, of 105] one_block_search by simp

end
