(* ===== verification/Break_Point.thy ===== *)
theory Break_Point
  imports Machines Mem_Block
begin

text \<open>
  \<open>src/breakpoint.c\<close> and \<open>breakpoint.h\<close> on x86-64: the four API breakpoints, what each
  records when its function returns, and how the traps are written into and removed
  from the target. \<open>henv\<close> carries what a handler takes from outside: the values of
  \<open>time(NULL)\<close> when a block is deleted and when one is created, the result of \<open>malloc\<close>
  for a new block, and what \<open>callstack_current\<close> takes.
\<close>

datatype bp_handler = Bph_malloc | Bph_free | Bph_realloc | Bph_calloc

record breakpoint_s =
  bp_name :: string
  handler :: bp_handler
  entry_address :: u64
  entry_code :: u64

type_synonym target64 = "(u64, x86_64_regs) target"

record henv =
  he_ce :: callenv
  he_malloc :: "nat option"
  he_delete :: int
  he_new :: int

section \<open>Handlers\<close>

definition bph_malloc :: "henv \<Rightarrow> u64 \<Rightarrow> u64 \<Rightarrow> u64 \<Rightarrow> trk \<Rightarrow> (int \<times> trk) run" where
  "bph_malloc he pointer sz none st = memblock_new (he_ce he) (he_malloc he) (he_new he) pointer sz st"

definition bph_free :: "henv \<Rightarrow> u64 \<Rightarrow> u64 \<Rightarrow> u64 \<Rightarrow> trk \<Rightarrow> (int \<times> trk) run" where
  "bph_free he none1 pointer none2 st =
     run_bind (memblock_search pointer st) (\<lambda>mb. Return (0, memblock_delete (he_delete he) mb st))"

definition bph_realloc :: "henv \<Rightarrow> u64 \<Rightarrow> u64 \<Rightarrow> u64 \<Rightarrow> trk \<Rightarrow> (int \<times> trk) run" where
  "bph_realloc he new_pointer old_pointer sz st =
     (if new_pointer = old_pointer then
        run_bind (memblock_search old_pointer st) (\<lambda>mb. Return (0, memblock_update_size mb sz st))
      else
        run_bind (memblock_search old_pointer st) (\<lambda>mb.
          memblock_new (he_ce he) (he_malloc he) (he_new he) new_pointer sz
            (memblock_delete (he_delete he) mb st)))"

definition bph_calloc :: "henv \<Rightarrow> u64 \<Rightarrow> u64 \<Rightarrow> u64 \<Rightarrow> trk \<Rightarrow> (int \<times> trk) run" where
  "bph_calloc he pointer nmemb sz st =
     memblock_new (he_ce he) (he_malloc he) (he_new he) pointer (nmemb * sz) st"

fun call_handler :: "bp_handler \<Rightarrow> henv \<Rightarrow> u64 \<Rightarrow> u64 \<Rightarrow> u64 \<Rightarrow> trk \<Rightarrow> (int \<times> trk) run" where
  "call_handler Bph_malloc = bph_malloc"
| "call_handler Bph_free = bph_free"
| "call_handler Bph_realloc = bph_realloc"
| "call_handler Bph_calloc = bph_calloc"

section \<open>Setting and removing the traps\<close>

definition zero_bp :: breakpoint_s where
  "zero_bp = \<lparr>bp_name = [], handler = Bph_malloc, entry_address = 0, entry_code = 0\<rparr>"

definition do_breakpoint_init ::
  "symbol_s list \<Rightarrow> pid \<Rightarrow> nat \<Rightarrow> string \<Rightarrow> bp_handler \<Rightarrow> breakpoint_s list \<times> target64
     \<Rightarrow> (breakpoint_s list \<times> target64) run" where
  "do_breakpoint_init table p i name h = (\<lambda>(bps, t).
     let entry = symtab_by_name name table
     in if entry = 0 then Exit 3
        else
          let code = ptrace_get_data p entry t
          in Return (bps[i := \<lparr>bp_name = name, handler = h, entry_address = entry, entry_code = code\<rparr>],
                     set_breakpoint_x86_64 p entry code t))"

definition breakpoint_init ::
  "symbol_s list \<Rightarrow> pid \<Rightarrow> target64 \<Rightarrow> (breakpoint_s list \<times> target64) run" where
  "breakpoint_init table p t =
     run_bind (do_breakpoint_init table p 0 ''malloc'' Bph_malloc (replicate 4 zero_bp, t)) (\<lambda>s.
     run_bind (do_breakpoint_init table p 1 ''free'' Bph_free s) (\<lambda>s.
     run_bind (do_breakpoint_init table p 2 ''realloc'' Bph_realloc s) (\<lambda>s.
     do_breakpoint_init table p 3 ''calloc'' Bph_calloc s)))"

definition breakpoint_cleanup :: "breakpoint_s list \<Rightarrow> pid \<Rightarrow> target64 \<Rightarrow> target64" where
  "breakpoint_cleanup bps p t = fold (\<lambda>bp. ptrace_set_data p (entry_address bp) (entry_code bp)) bps t"

fun by_entry_loop :: "u64 \<Rightarrow> nat \<Rightarrow> breakpoint_s list \<Rightarrow> nat option" where
  "by_entry_loop address i [] = None"
| "by_entry_loop address i (bp # bps) =
     (if address = entry_address bp then Some i else by_entry_loop address (Suc i) bps)"

definition breakpoint_by_entry :: "u64 \<Rightarrow> breakpoint_s list \<Rightarrow> nat option" where
  "breakpoint_by_entry address bps = by_entry_loop address 0 bps"

lemma by_entry_loop_Some:
  "by_entry_loop a i bps = Some j \<Longrightarrow> \<exists>k < length bps. j = i + k \<and> entry_address (bps ! k) = a"
proof (induction bps arbitrary: i)
  case (Cons bp bps)
  show ?case
  proof (cases "a = entry_address bp")
    case True
    with Cons.prems show ?thesis by (intro exI [of _ 0]) auto
  next
    case False
    with Cons.IH [of "Suc i"] Cons.prems obtain k where "k < length bps" "j = Suc i + k" "entry_address (bps ! k) = a"
      by auto
    then show ?thesis by (intro exI [of _ "Suc k"]) auto
  qed
qed simp

lemma by_entry_loop_None: "by_entry_loop a i bps = None \<longleftrightarrow> (\<forall>bp \<in> set bps. entry_address bp \<noteq> a)"
  by (induction bps arbitrary: i) auto

lemma breakpoint_by_entry_Some:
  "breakpoint_by_entry a bps = Some j \<Longrightarrow> j < length bps \<and> entry_address (bps ! j) = a"
  using by_entry_loop_Some [of a 0 bps j] by (auto simp: breakpoint_by_entry_def)

lemma breakpoint_by_entry_in: "breakpoint_by_entry a bps = Some j \<Longrightarrow> a \<in> entry_address ` set bps"
  using breakpoint_by_entry_Some nth_mem by blast

lemma breakpoint_by_entry_None:
  "breakpoint_by_entry a bps = None \<longleftrightarrow> a \<notin> entry_address ` set bps"
  by (auto simp: breakpoint_by_entry_def by_entry_loop_None)

section \<open>The text of the target\<close>

text \<open>
  \<open>patched orig T X m\<close>: on the addresses \<open>X\<close>, memory \<open>m\<close> is the program text \<open>orig\<close> with a
  trap byte at each address of \<open>T\<close>. \<open>apart a T\<close>: the word at \<open>a\<close> holds no byte of \<open>T\<close>,
  except possibly at \<open>a\<close> itself.
\<close>

definition patched :: "(u64 \<Rightarrow> u8) \<Rightarrow> u64 set \<Rightarrow> u64 set \<Rightarrow> (u64 \<Rightarrow> u8) \<Rightarrow> bool" where
  "patched orig T X m \<longleftrightarrow> (\<forall>x \<in> X. m x = (if x \<in> T then 0xCC else orig x))"

definition apart :: "u64 \<Rightarrow> u64 set \<Rightarrow> bool" where
  "apart a T \<longleftrightarrow> window a \<inter> T \<subseteq> {a}"

lemma apart_subset: "apart a T \<Longrightarrow> S \<subseteq> T \<Longrightarrow> apart a S"
  by (auto simp: apart_def)

lemma tspace_set_data [simp]: "tspace (ptrace_set_data p a d t) = tspace t" "tstop (ptrace_set_data p a d t) = tstop t"
  by (simp_all add: ptrace_set_data_def)

lemma tspace_set_breakpoint [simp]:
  "tspace (set_breakpoint_x86_64 p a d t) = tspace t" "tstop (set_breakpoint_x86_64 p a d t) = tstop t"
  by (simp_all add: set_breakpoint_x86_64_def)

lemma tspace_cleanup [simp]:
  "tspace (breakpoint_cleanup bps p t) = tspace t" "tstop (breakpoint_cleanup bps p t) = tstop t"
  by (induction bps arbitrary: t) (simp_all add: breakpoint_cleanup_def)

text \<open>On a thread that is not stopped nothing is removed.\<close>

lemma cleanup_running: "\<not> tstop t p \<Longrightarrow> breakpoint_cleanup bps p t = t"
  by (induction bps) (simp_all add: breakpoint_cleanup_def requests_running)

lemma patched_peek:
  assumes "patched orig T X m" "window a \<subseteq> X" "apart a T" "a \<notin> T"
  shows "peek m a = peek orig a"
proof (rule peek_cong)
  fix x assume x: "x \<in> window a"
  with assms(3,4) have "x \<notin> T" by (auto simp: apart_def)
  with x assms(1,2) show "m x = orig x" by (auto simp: patched_def)
qed

lemma patched_set:
  assumes "tstop t p" "patched orig T X (space_of p t)" "window a \<subseteq> X" "apart a T"
  shows "patched orig (insert a T) X (space_of p (set_breakpoint_x86_64 p a (peek orig a) t))"
  using assms by (auto simp: bp_x86_64.set_bp patched_def apart_def)

lemma patched_clear:
  assumes "tstop t p" "patched orig T X (space_of p t)" "window a \<subseteq> X" "apart a T"
  shows "patched orig (T - {a}) X (space_of p (ptrace_set_data p a (peek orig a) t))"
  using assms by (auto simp: set_data_space poke_peek patched_def apart_def)

text \<open>The saved words of the breakpoints are the original text, at addresses apart.\<close>

definition bps_ok :: "(u64 \<Rightarrow> u8) \<Rightarrow> u64 set \<Rightarrow> breakpoint_s list \<Rightarrow> bool" where
  "bps_ok orig X bps \<longleftrightarrow> (\<forall>bp \<in> set bps. entry_code bp = peek orig (entry_address bp) \<and>
     window (entry_address bp) \<subseteq> X \<and> apart (entry_address bp) (entry_address ` set bps))"

lemma patched_cleanup_gen:
  assumes "\<forall>bp \<in> set bps. entry_code bp = peek orig (entry_address bp) \<and>
      window (entry_address bp) \<subseteq> X \<and> apart (entry_address bp) T"
    and "patched orig T X (space_of p t)" and "tstop t p"
  shows "patched orig (T - entry_address ` set bps) X (space_of p (breakpoint_cleanup bps p t))"
  using assms
proof (induction bps arbitrary: t T)
  case Nil
  then show ?case by (simp add: breakpoint_cleanup_def)
next
  case (Cons bp bps)
  let ?t = "ptrace_set_data p (entry_address bp) (entry_code bp) t"
  have "patched orig (T - {entry_address bp}) X (space_of p ?t)"
    using Cons.prems by (auto intro: patched_clear)
  then have "patched orig (T - {entry_address bp} - entry_address ` set bps) X (space_of p (breakpoint_cleanup bps p ?t))"
    using Cons.prems by (intro Cons.IH) (auto intro: apart_subset)
  then show ?case by (simp add: breakpoint_cleanup_def Diff_insert2 [symmetric])
qed

section \<open>Initialisation\<close>

definition api_names :: "string list" where
  "api_names = [''malloc'', ''free'', ''realloc'', ''calloc'']"

definition api_entries :: "symbol_s list \<Rightarrow> u64 list" where
  "api_entries table = map (\<lambda>n. symtab_by_name n table) api_names"

text \<open>The four functions were found, at addresses whose words lie in \<open>X\<close> and apart.\<close>

definition apis_ok :: "symbol_s list \<Rightarrow> u64 set \<Rightarrow> bool" where
  "apis_ok table X \<longleftrightarrow> 0 \<notin> set (api_entries table) \<and> distinct (api_entries table) \<and>
     (\<forall>a \<in> set (api_entries table). window a \<subseteq> X \<and> apart a (set (api_entries table)))"

lemma do_breakpoint_init_step:
  assumes "a = symtab_by_name name table" "a \<noteq> 0" "window a \<subseteq> X" "apart a T" "a \<notin> T"
    and "patched orig T X (space_of p t)" and "tstop t p"
  shows "do_breakpoint_init table p i name h (bps, t) =
      Return (bps[i := \<lparr>bp_name = name, handler = h, entry_address = a, entry_code = peek orig a\<rparr>],
              set_breakpoint_x86_64 p a (peek orig a) t) \<and>
    patched orig (insert a T) X (space_of p (set_breakpoint_x86_64 p a (peek orig a) t)) \<and>
    tstop (set_breakpoint_x86_64 p a (peek orig a) t) p"
proof -
  have "ptrace_get_data p a t = peek orig a"
    using assms patched_peek by (simp add: get_data_space)
  with assms show ?thesis
    by (simp add: do_breakpoint_init_def Let_def patched_set)
qed

lemma breakpoint_init_ok:
  assumes ok: "apis_ok table X" and m: "patched orig {} X (space_of p t)" and stopped: "tstop t p"
  shows "\<exists>bps t'. breakpoint_init table p t = Return (bps, t') \<and>
     map entry_address bps = api_entries table \<and>
     map handler bps = [Bph_malloc, Bph_free, Bph_realloc, Bph_calloc] \<and> bps_ok orig X bps \<and>
     patched orig (entry_address ` set bps) X (space_of p t') \<and> tspace t' = tspace t \<and> tstop t' = tstop t"
proof -
  define e where "e n = symtab_by_name n table" for n
  define arm where "arm n u = set_breakpoint_x86_64 p (e n) (peek orig (e n)) u" for n and u :: target64
  have ents: "api_entries table = [e ''malloc'', e ''free'', e ''realloc'', e ''calloc'']"
    by (simp add: api_entries_def api_names_def e_def)
  have stepn: "do_breakpoint_init table p i n h (bps, u) =
        Return (bps[i := \<lparr>bp_name = n, handler = h, entry_address = e n, entry_code = peek orig (e n)\<rparr>], arm n u) \<and>
      patched orig (insert (e n) T) X (space_of p (arm n u)) \<and> tstop (arm n u) p"
    if "e n \<in> set (api_entries table)" "T \<subseteq> set (api_entries table) - {e n}" "patched orig T X (space_of p u)" "tstop u p"
    for i n h bps u T
    unfolding arm_def
    by (rule do_breakpoint_init_step) (use ok that in \<open>auto simp: e_def apis_ok_def intro: apart_subset\<close>)
  let ?t1 = "arm ''malloc'' t" let ?t2 = "arm ''free'' ?t1" let ?t3 = "arm ''realloc'' ?t2"
  have d: "distinct [e ''malloc'', e ''free'', e ''realloc'', e ''calloc'']"
    using ok by (simp add: apis_ok_def ents)
  note s1 = stepn [of "''malloc''" "{}" t, OF _ _ m stopped]
  have p1: "patched orig {e ''malloc''} X (space_of p ?t1)" "tstop ?t1 p" using s1 by (simp_all add: ents)
  note s2 = stepn [OF _ _ p1, of "''free''"]
  have p2: "patched orig {e ''free'', e ''malloc''} X (space_of p ?t2)" "tstop ?t2 p" using s2 d by (simp_all add: ents)
  note s3 = stepn [OF _ _ p2, of "''realloc''"]
  have p3: "patched orig {e ''realloc'', e ''free'', e ''malloc''} X (space_of p ?t3)" "tstop ?t3 p" using s3 d by (simp_all add: ents)
  note s4 = stepn [OF _ _ p3, of "''calloc''"]
  let ?bps = "map2 (\<lambda>n h. \<lparr>bp_name = n, handler = h, entry_address = e n, entry_code = peek orig (e n)\<rparr>)
         api_names [Bph_malloc, Bph_free, Bph_realloc, Bph_calloc]"
  have "breakpoint_init table p t = Return (?bps, arm ''calloc'' ?t3)"
    using s1 s2 s3 s4 d by (simp add: breakpoint_init_def ents api_names_def eval_nat_numeral)
  moreover have "patched orig (set (api_entries table)) X (space_of p (arm ''calloc'' ?t3))"
    using s4 d by (simp add: ents insert_commute)
  moreover have "bps_ok orig X ?bps"
    using ok by (simp add: bps_ok_def apis_ok_def ents api_names_def)
  ultimately show ?thesis
    by (intro exI [of _ ?bps] exI [of _ "arm ''calloc'' ?t3"] conjI) (simp_all add: ents api_names_def arm_def)
qed

text \<open>C9 (breakpoint_init_arms_all): when the four allocation functions are found at addresses
  whose words do not overlap and the target is stopped, initialisation succeeds and puts a trap at every one of
  their entries, changing no other byte of the target; removing the breakpoints again
  gives back exactly the original memory.\<close>

theorem breakpoint_init_arms_all:
  assumes "apis_ok table UNIV" and "tstop t p"
  shows "\<exists>bps t'. breakpoint_init table p t = Return (bps, t') \<and> map entry_address bps = api_entries table \<and>
     (\<forall>x. space_of p t' x = (if x \<in> set (api_entries table) then 0xCC else space_of p t x)) \<and>
     space_of p (breakpoint_cleanup bps p t') = space_of p t"
proof -
  have "patched (space_of p t) {} UNIV (space_of p t)" by (simp add: patched_def)
  from breakpoint_init_ok [OF assms(1) this assms(2)] obtain bps t' where bps: "breakpoint_init table p t = Return (bps, t')"
    "map entry_address bps = api_entries table" "bps_ok (space_of p t) UNIV bps"
    "patched (space_of p t) (entry_address ` set bps) UNIV (space_of p t')" "tstop t' p" using assms(2) by auto
  have "patched (space_of p t) {} UNIV (space_of p (breakpoint_cleanup bps p t'))"
    using patched_cleanup_gen [OF _ bps(4,5), of bps] bps(3) by (simp add: bps_ok_def)
  moreover have "set (api_entries table) = entry_address ` set bps" using bps(2) by (metis list.set_map)
  ultimately show ?thesis
    using bps(1,2,4) by (intro exI [of _ bps] exI [of _ t']) (auto simp: patched_def)
qed

definition demo_symbols :: "symbol_s list" where
  "demo_symbols = map (\<lambda>(n, a). \<lparr>sym_address = a, sym_size = 16, sym_weak = False, sym_name = n\<rparr>)
     [(''malloc'', 0x1000), (''free'', 0x1010), (''realloc'', 0x1020), (''calloc'', 0x1030)]"

definition demo_target :: target64 where
  "demo_target = \<lparr>tspace = (\<lambda>_. 0), tmem = (\<lambda>_ _. 0x90),
     tregs = (\<lambda>_. \<lparr>rsp = 0x7000, rax = 0, rsi = 0, rdi = 0, rip = 0x1001\<rparr>), tevent = (\<lambda>_. 0),
     tstop = (\<lambda>_. True), tlog = []\<rparr>"

lemma demo_entries: "api_entries demo_symbols = [0x1000, 0x1010, 0x1020, 0x1030]"
  by (simp add: api_entries_def api_names_def demo_symbols_def symtab_by_name_def)

lemma demo_apis_ok: "apis_ok demo_symbols UNIV"
  by (simp add: apis_ok_def demo_entries apart_def window_def)

theorem breakpoint_init_arms_all_witness:
  "apis_ok demo_symbols UNIV \<and> (\<exists>bps t'. breakpoint_init demo_symbols 7 demo_target = Return (bps, t') \<and>
     space_of 7 t' 0x1010 = 0xCC \<and> space_of 7 t' 0x1011 = 0x90 \<and>
     space_of 7 (breakpoint_cleanup bps 7 t') 0x1010 = 0x90)"
proof -
  have m: "space_of 7 demo_target x = 0x90" for x by (simp add: space_of_def demo_target_def)
  have "tstop demo_target 7" by (simp add: demo_target_def)
  from breakpoint_init_arms_all [OF demo_apis_ok this] obtain bps t' where
    "breakpoint_init demo_symbols 7 demo_target = Return (bps, t')"
    "\<forall>x. space_of 7 t' x = (if x \<in> set (api_entries demo_symbols) then 0xCC else space_of 7 demo_target x)"
    "space_of 7 (breakpoint_cleanup bps 7 t') = space_of 7 demo_target" by blast
  with m demo_apis_ok show ?thesis
    by (intro conjI exI [of _ bps] exI [of _ t']) (simp_all add: demo_entries)
qed

text \<open>C40 (breakpoint_init_missing_api): initialisation ends the program with status 3 exactly
  when one of the four functions is not in the symbol table.\<close>

theorem breakpoint_init_missing_api:
  "breakpoint_init table p t = Exit 3 \<longleftrightarrow> 0 \<in> set (api_entries table)"
  by (auto simp: breakpoint_init_def do_breakpoint_init_def Let_def api_entries_def api_names_def)

section \<open>What the handlers record\<close>

definition tracking :: "trk \<Rightarrow> int \<Rightarrow> nat list \<Rightarrow> nat list \<Rightarrow> nat list \<Rightarrow> nat list \<Rightarrow> bool" where
  "tracking st now A E L C \<longleftrightarrow> trk_inv st A E L C \<and> trk_time st A E now"

text \<open>\<open>malloc\<close> delivers structures that are not in use.\<close>

definition he_fresh :: "henv \<Rightarrow> nat list \<Rightarrow> nat list \<Rightarrow> bool" where
  "he_fresh he L C \<longleftrightarrow> (\<forall>m. he_malloc he = Some m \<longrightarrow> m \<notin> set L) \<and> (\<forall>c. ce_malloc (he_ce he) = Some c \<longrightarrow> c \<notin> set C)"

lemma trk_time_mono: "trk_time st A E now \<Longrightarrow> now \<le> now' \<Longrightarrow> trk_time st A E now'"
  unfolding trk_time_def by (meson order_trans)

lemma trk_inv_lists: "trk_inv st A E L C \<Longrightarrow> set L = set A \<union> set E"
  using trk_structD(4) by (auto simp: trk_inv_def)

lemma tracking_new:
  assumes t: "tracking st now A E L C" and now: "now \<le> he_new he" and fresh: "he_fresh he L C"
  shows "pointer = 0 \<and> ce_malloc (he_ce he) = None \<and>
      memblock_new (he_ce he) (he_malloc he) (he_new he) pointer sz st = Crash NullDeref \<or>
    (\<exists>r st' A' L' C'. memblock_new (he_ce he) (he_malloc he) (he_new he) pointer sz st = Return (r, st') \<and>
       (r = 0 \<or> r = -1) \<and> tracking st' (he_new he) A' E L' C' \<and> set C \<subseteq> set C')"
    (is "?crash \<or> _")
proof -
  let ?new = "memblock_new (he_ce he) (he_malloc he) (he_new he) pointer sz st"
  have inv: "trk_inv st A E L C" and time: "trk_time st A E now" using t by (simp_all add: tracking_def)
  have old: "trk_time st' A E (he_new he)" if "\<forall>m \<in> set L. mb_mem st' m = mb_mem st m" for st'
  proof -
    have "mb_mem st' m = mb_mem st m" if "m \<in> set (E @ A)" for m
      using that \<open>\<forall>m \<in> set L. mb_mem st' m = mb_mem st m\<close> trk_inv_lists [OF inv] by auto
    then have eq: "map (\<lambda>m. mb_create (mb_mem st' m)) (E @ A) = map (\<lambda>m. mb_create (mb_mem st m)) (E @ A)"
      and eq': "\<forall>m \<in> set (E @ A). mb_create (mb_mem st' m) = mb_create (mb_mem st m)" by simp_all
    show ?thesis using trk_time_mono [OF time now] eq' unfolding trk_time_def eq by simp
  qed
  have app: "trk_time st' (A @ [m]) E (he_new he)" if "trk_time st' A E (he_new he)" "mb_create (mb_mem st' m) = he_new he"
    for st' m using that by (auto simp: trk_time_def sorted_append)
  have f: "\<forall>m. he_malloc he = Some m \<longrightarrow> m \<notin> set L" "\<forall>c. ce_malloc (he_ce he) = Some c \<longrightarrow> c \<notin> set C"
    using fresh by (auto simp: he_fresh_def)
  have "?crash \<or> (\<exists>r st' A' L' C'. ?new = Return (r, st') \<and> trk_inv st' A' E L' C' \<and> set C \<subseteq> set C' \<and>
      (\<forall>m \<in> set L. mb_mem st' m = mb_mem st m) \<and> (r = 0 \<or> r = -1) \<and>
      (A' = A \<or> (\<exists>m. A' = A @ [m] \<and> mb_create (mb_mem st' m) = he_new he)))"
    by (rule disj_forward [OF memblock_new_cases [OF inv f, of pointer "he_new he" sz]])
       (assumption, (elim exE conjE disjE; force))
  then show ?thesis
    unfolding tracking_def by (elim disjE exE conjE) (blast intro: old app)+
qed

lemma tracking_new_block:
  assumes t: "tracking st now A E L C" and now: "now \<le> he_new he" and fresh: "he_fresh he L C"
    and "pointer \<noteq> 0" and k: "he_malloc he = Some k" and c: "ce_malloc (he_ce he) \<noteq> None"
  shows "\<exists>st' A' C' c. memblock_new (he_ce he) (he_malloc he) (he_new he) pointer sz st = Return (0, st') \<and>
     tracking st' (he_new he) A' E (k # L) C' \<and> mb_mem st' k =
       \<lparr>mb_pointer = pointer, mb_size = sz, mb_create = he_new he, mb_expired = False, mb_callstack = c\<rparr>"
proof -
  have inv: "trk_inv st A E L C" and f: "\<forall>m. he_malloc he = Some m \<longrightarrow> m \<notin> set L" "\<forall>c. ce_malloc (he_ce he) = Some c \<longrightarrow> c \<notin> set C"
    using t fresh by (auto simp: tracking_def he_fresh_def)
  from memblock_new_cases [OF inv f, of pointer "he_new he" sz] k c \<open>pointer \<noteq> 0\<close>
  obtain st' C' c where st': "memblock_new (he_ce he) (he_malloc he) (he_new he) pointer sz st = Return (0, st')"
    "trk_inv st' (A @ [k]) E (k # L) C'"
    "mb_mem st' k = \<lparr>mb_pointer = pointer, mb_size = sz, mb_create = he_new he, mb_expired = False, mb_callstack = c\<rparr>" by auto
  from tracking_new [OF t now fresh, of pointer sz] st'(1) obtain A2 L2 C2 where "tracking st' (he_new he) A2 E L2 C2" by auto
  then have "trk_inv st' A2 E L2 C2" "trk_time st' A2 E (he_new he)" by (simp_all add: tracking_def)
  moreover have "A2 = A @ [k]"
    using st'(2) \<open>trk_inv st' A2 E L2 C2\<close> unfolding trk_inv_def trk_struct_def by (meson is_list_unique)
  ultimately show ?thesis using st' by (auto simp: tracking_def)
qed

lemma tracking_delete_some:
  assumes t: "tracking st now A E L C" and "now \<le> now'" and m: "m \<in> set L"
  shows "tracking (memblock_delete now'' (Some m) st) now' (remove1 m A) (remove1 m E) (removeAll m L) C"
proof -
  have inv: "trk_inv st A E L C" and time: "trk_time st A E now'"
    using t assms(2) by (auto simp: tracking_def intro: trk_time_mono)
  have "trk_time (memblock_delete now'' (Some m) st) (remove1 m A) (remove1 m E) now'"
    using time unfolding trk_time_def memblock_delete_fields(6)
    using set_remove1_subset by (fastforce simp: sorted_append intro: sorted_map_remove1)
  with trk_inv_delete [OF inv m] show ?thesis by (simp add: tracking_def)
qed

lemma tracking_delete:
  assumes t: "tracking st now A E L C" and "now \<le> now'" and "\<And>m. mbp = Some m \<Longrightarrow> m \<in> set L"
  shows "\<exists>A' E' L'. tracking (memblock_delete now'' mbp st) now' A' E' L' C \<and> set L' \<subseteq> set L"
proof (cases mbp)
  case None
  with t assms(2) show ?thesis by (auto simp: memblock_delete_def tracking_def intro: trk_time_mono)
next
  case (Some m)
  with tracking_delete_some [OF t assms(2), of m now''] assms(3) show ?thesis
    by (intro exI [of _ "remove1 m A"] exI [of _ "remove1 m E"] exI [of _ "removeAll m L"]) auto
qed

lemma tracking_update_size:
  assumes t: "tracking st now A E L C" and "now \<le> now'" and mb: "\<And>m. mbp = Some m \<Longrightarrow> m \<in> set L"
  shows "tracking (memblock_update_size mbp sz st) now' A E L C"
proof -
  have "mb_create (mb_mem (memblock_update_size mbp sz st) m) = mb_create (mb_mem st m)" for m
    by (auto simp: memblock_update_size_def Let_def split: option.split)
  with assms trk_inv_update_size [of st A E L C mbp sz] trk_time_mono show ?thesis
    by (auto simp: tracking_def trk_time_def)
qed

lemma memblock_search_in:
  assumes "tracking st now A E L C"
  shows "\<exists>mb. memblock_search p st = Return mb \<and> (\<forall>m. mb = Some m \<longrightarrow> m \<in> set L \<and> mb_pointer (mb_mem st m) = p)"
  using memblock_search_find [of st A E L C p] assms by (auto simp: tracking_def dest: find_Some_set)

text \<open>Every handler, on any values the target passes and returns,
  leaves the tracker's structures and books consistent and its lists in order of time,
  and reports success or lack of memory; the one exception is a failed allocation of the
  target for which no call stack can be stored, which dereferences NULL.\<close>

lemma handlers_keep_invariant:
  assumes t: "tracking st now A E L C" and fresh: "he_fresh he L C"
    and now: "now \<le> he_delete he" "he_delete he \<le> he_new he"
  shows "call_handler h he ret arg1 arg2 st = Crash NullDeref \<and> ret = 0 \<and> ce_malloc (he_ce he) = None \<or>
    (\<exists>r st' A' E' L' C'. call_handler h he ret arg1 arg2 st = Return (r, st') \<and> (r = 0 \<or> r = -1) \<and>
       tracking st' (he_new he) A' E' L' C')"
proof -
  note new = tracking_new [OF t _ fresh]
  have le: "now \<le> he_new he" using now by simp
  show ?thesis
  proof (cases h)
    case Bph_malloc
    with new [OF le, of ret arg1] show ?thesis by (auto simp: bph_malloc_def)
  next
    case Bph_calloc
    with new [OF le, of ret "arg1 * arg2"] show ?thesis by (auto simp: bph_calloc_def)
  next
    case Bph_free
    from memblock_search_in [OF t, of arg1] obtain mb where mb: "memblock_search arg1 st = Return mb"
      "\<And>m. mb = Some m \<Longrightarrow> m \<in> set L" by blast
    from tracking_delete [OF t le mb(2), of mb "he_delete he"] show ?thesis
      by (intro disjI2) (use Bph_free mb(1) in \<open>auto simp: bph_free_def\<close>)
  next
    case Bph_realloc
    from memblock_search_in [OF t, of arg1] obtain mb where mb: "memblock_search arg1 st = Return mb"
      "\<And>m. mb = Some m \<Longrightarrow> m \<in> set L" by blast
    show ?thesis
    proof (cases "ret = arg1")
      case True
      with tracking_update_size [OF t le mb(2), of mb arg2] Bph_realloc mb(1) show ?thesis
        by (intro disjI2) (auto simp: bph_realloc_def)
    next
      case False
      from tracking_delete [OF t now(1) mb(2), of mb "he_delete he"] obtain A' E' L' where
        d: "tracking (memblock_delete (he_delete he) mb st) (he_delete he) A' E' L' C" "set L' \<subseteq> set L" by blast
      then have "he_fresh he L' C" using fresh by (auto simp: he_fresh_def)
      from tracking_new [OF d(1) now(2) this, of ret arg2] False Bph_realloc mb(1) show ?thesis
        by (auto simp: bph_realloc_def)
    qed
  qed
qed

definition demo_he :: henv where
  "demo_he = \<lparr>he_ce = demo_ce [0x10] 4, he_malloc = Some 9, he_delete = 105, he_new = 105\<rparr>"

lemma one_block_tracking: "tracking one_block 100 [7] [] [7] [3]"
  by (simp add: tracking_def one_block_inv) (simp add: trk_time_def one_block_fields)

lemma demo_he_fresh: "he_fresh demo_he [7] [3]"
  by (simp add: he_fresh_def demo_he_def demo_ce_def)

text \<open>C29 (realloc_in_place): a reallocation that keeps the address changes the recorded size of
  the block it finds and nothing else in any block; in particular the block keeps its
  age and its list, so that resizing does not postpone expiry.\<close>

theorem realloc_in_place:
  assumes t: "tracking st now A E L C" and found: "memblock_search p st = Return (Some m)"
  shows "\<exists>st'. bph_realloc he p p sz st = Return (0, st') \<and> tracking st' now A E L C \<and>
     mb_mem st' = (mb_mem st)(m := (mb_mem st m)\<lparr>mb_size := sz\<rparr>)"
proof -
  have "m \<in> set L" using memblock_search_in [OF t, of p] found by auto
  with tracking_update_size [OF t order_refl, of "Some m" sz] found show ?thesis
    by (auto simp: bph_realloc_def) (simp add: memblock_update_size_def Let_def)
qed

theorem realloc_in_place_witness:
  "memblock_search 0x5000 one_block = Return (Some 7) \<and>
   (\<exists>st'. bph_realloc demo_he 0x5000 0x5000 40 one_block = Return (0, st') \<and>
      mb_size (mb_mem st' 7) = 40 \<and> mb_create (mb_mem st' 7) = 100)"
  using realloc_in_place [OF one_block_tracking one_block_search, of demo_he 40] one_block_search
  by (auto simp: one_block_fields)

text \<open>Fact (realloc_failure_untracks): when the target's \<open>realloc\<close> fails and returns NULL, the old
  block is still allocated, but the handler removes it from the tracker: a search no
  longer finds it (if it was the only record of the pointer) and it can never be
  reported.\<close>

theorem realloc_failure_untracks:
  assumes t: "tracking st now A E L C" and fresh: "he_fresh he L C" and c: "ce_malloc (he_ce he) \<noteq> None"
    and found: "memblock_search p st = Return (Some m)" and "p \<noteq> 0"
    and only: "\<forall>k \<in> set L. mb_pointer (mb_mem st k) = p \<longrightarrow> k = m"
  shows "\<exists>st'. bph_realloc he 0 p sz st = Return (0, st') \<and> memblock_search p st' = Return None"
proof -
  have inv: "trk_inv st A E L C" and m: "m \<in> set L"
    using t memblock_search_in [OF t, of p] found by (auto simp: tracking_def)
  let ?st = "memblock_delete (he_delete he) (Some m) st"
  have i1: "trk_inv ?st (remove1 m A) (remove1 m E) (removeAll m L) C" by (rule trk_inv_delete [OF inv m])
  have f: "\<forall>k. he_malloc he = Some k \<longrightarrow> k \<notin> set (removeAll m L)" "\<forall>k. ce_malloc (he_ce he) = Some k \<longrightarrow> k \<notin> set C"
    using fresh by (auto simp: he_fresh_def)
  from memblock_new_cases [OF i1 f, of 0 "he_new he" sz] c
  obtain st' A' C' where st': "memblock_new (he_ce he) (he_malloc he) (he_new he) 0 sz ?st = Return (0, st')"
    "trk_inv st' A' (remove1 m E) (removeAll m L) C'" "\<forall>k \<in> set (removeAll m L). mb_mem st' k = mb_mem ?st k" by auto
  have "find (\<lambda>k. mb_pointer (mb_mem st' k) = p) (removeAll m L) = None"
    using st'(3) only by (auto simp: find_None_iff trk_simps)
  with st' found \<open>p \<noteq> 0\<close> show ?thesis
    by (intro exI [of _ st']) (simp add: bph_realloc_def memblock_search_find [OF st'(2)])
qed

theorem realloc_failure_untracks_witness:
  "memblock_search 0x5000 one_block = Return (Some 7) \<and>
   (\<exists>st'. bph_realloc demo_he 0 0x5000 40 one_block = Return (0, st') \<and> memblock_search 0x5000 st' = Return None)"
proof -
  have "ce_malloc (he_ce demo_he) \<noteq> None" by (simp add: demo_he_def demo_ce_def)
  from realloc_failure_untracks [OF one_block_tracking demo_he_fresh this one_block_search, of 40]
  show ?thesis using one_block_search by simp
qed

end
