(* ===== verification/Mem_Expiry.thy ===== *)
theory Mem_Expiry
  imports Mem_Block
begin

text \<open>
  What the expiry check of \<open>src/memblock.c\<close> (lines 114-188) achieves: which blocks
  \<open>memblock_expire\<close> moves to the expired list and when it asks to be called again,
  the identifiers of leaking call stacks and the two limits, the live times that
  \<open>memblock_delete\<close> and \<open>memblock_count\<close> collect, and what becomes of the size of an
  expired block that is reallocated in place.
\<close>

definition limit_ok :: "int \<Rightarrow> int \<Rightarrow> callstack_s \<Rightarrow> bool" where
  "limit_ok memblock_limit callstack_limit cs \<longleftrightarrow>
     sint (cs_id cs) \<le> callstack_limit \<and> sint (expired_count cs) < memblock_limit"

lemma is_list_next_node:
  assumes "is_list h hh (n # ns)"
  shows "lnext h (LNode n) = hd (map LNode ns @ [LHead hh])"
  using assms by (auto simp: is_list_def linked_def successively_Cons)

lemma memblock_expire_one_blocks:
  "mb_create (mb_mem (memblock_expire_one mb st) m) = mb_create (mb_mem st m)"
  "mb_callstack (mb_mem (memblock_expire_one mb st) m) = mb_callstack (mb_mem st m)"
  "mb_size (mb_mem (memblock_expire_one mb st) m) = mb_size (mb_mem st m)"
  "mb_pointer (mb_mem (memblock_expire_one mb st) m) = mb_pointer (mb_mem st m)"
  by (simp_all add: trk_simps)

definition same_blocks :: "trk \<Rightarrow> trk \<Rightarrow> bool" where
  "same_blocks st' st \<longleftrightarrow> (\<forall>m. mb_create (mb_mem st' m) = mb_create (mb_mem st m) \<and>
     mb_callstack (mb_mem st' m) = mb_callstack (mb_mem st m) \<and> mb_size (mb_mem st' m) = mb_size (mb_mem st m) \<and>
     mb_pointer (mb_mem st' m) = mb_pointer (mb_mem st m))"

lemma same_blocks_refl [simp]: "same_blocks st st"
  by (simp add: same_blocks_def)

lemma same_blocks_expire_one: "same_blocks (memblock_expire_one m st) st"
  by (simp add: same_blocks_def memblock_expire_one_blocks)

lemma same_blocks_trans: "same_blocks a b \<Longrightarrow> same_blocks b c \<Longrightarrow> same_blocks a c"
  by (simp add: same_blocks_def)

lemma same_blocks_emit [simp]: "same_blocks (emit msg a) b \<longleftrightarrow> same_blocks a b"
  by (simp add: same_blocks_def)

text \<open>The last identifier that the check of the code admits: \<open>callstack_limit\<close>, unless the addition
  of 1 to it overflows.\<close>

definition last_id :: "int \<Rightarrow> int" where
  "last_id cl = sint (int_of_long (cl + 1)) - 1"

lemma last_id_int: "- (2 ^ 31) \<le> cl \<Longrightarrow> cl < 2 ^ 31 - 1 \<Longrightarrow> last_id cl = cl"
  by (simp add: last_id_def sint_int_of_long)

text \<open>
  The loop from a list \<open>A\<close> on: it stops at a young block, at a broken limit, or at the
  end, after moving a prefix of \<open>A\<close>.
\<close>

lemma memblock_expire_loop_spec:
  assumes "trk_inv st A E L C"
  shows "\<exists>r st' k. k \<le> length A \<and>
    memblock_expire_loop now ex ml cl (hd (map LNode A @ [LHead Active]))
      (lnext (mb_list st) (hd (map LNode A @ [LHead Active]))) st = Some (r, st') \<and>
    trk_inv st' (drop k A) (E @ take k A) L C \<and>
    same_blocks st' st \<and>
    (\<forall>m \<in> set (take k A). ex \<le> now - mb_create (mb_mem st m)) \<and>
    (r = -1 \<and> (\<exists>c \<in> set C. \<not> limit_ok ml (last_id cl) (cs_mem st' c)) \<or>
     ((\<forall>c \<in> set C. limit_ok ml (last_id cl) (cs_mem st c)) \<longrightarrow> (\<forall>c \<in> set C. limit_ok ml (last_id cl) (cs_mem st' c))) \<and>
     (r = 0 \<and> drop k A = [] \<or>
      drop k A \<noteq> [] \<and> now - mb_create (mb_mem st (hd (drop k A))) < ex \<and>
      r = sint (int_of_long (ex - (now - mb_create (mb_mem st (hd (drop k A)))) + 1))))"
  using assms
proof (induction A arbitrary: st E)
  case Nil
  then show ?case
    by (intro exI [of _ 0] exI [of _ st]) (simp add: memblock_expire_loop.simps)
next
  case (Cons m A)
  let ?st = "memblock_expire_one m st" and ?c = "mb_callstack (mb_mem st m)"
  let ?age = "now - mb_create (mb_mem st m)"
  have step: "memblock_expire_loop now ex ml cl (LNode m) safe st =
     (if ?age < ex then Some (sint (int_of_long (ex - ?age + 1)), st)
      else if sint (cs_id (cs_mem ?st ?c)) \<ge> last_id cl + 1 then Some (-1, emit (CallStacksLeak cl) ?st)
      else if sint (expired_count (cs_mem ?st ?c)) \<ge> ml then
        Some (-1, emit (BlocksLeaked ml (cs_id (cs_mem ?st ?c))) ?st)
      else memblock_expire_loop now ex ml cl safe (lnext (mb_list ?st) safe) ?st)" for safe
    by (subst memblock_expire_loop.simps) (simp add: Let_def memblock_expire_one_blocks last_id_def)
  have inv: "trk_inv ?st A (E @ [m]) L C"
    using trk_inv_expire_one [OF Cons.prems, of m] by simp
  have c: "?c \<in> set C" using Cons.prems by (auto simp: trk_inv_def trk_struct_def)
  have other: "limit_ok ml (last_id cl) (cs_mem st c) \<Longrightarrow> c \<noteq> ?c \<Longrightarrow> limit_ok ml (last_id cl) (cs_mem ?st c)" for c
    by (simp add: trk_simps)
  have safe: "lnext (mb_list st) (LNode m) = hd (map LNode A @ [LHead Active])"
    using Cons.prems by (intro is_list_next_node) (simp add: trk_inv_def trk_struct_def)
  consider (young) "?age < ex" | (limit) "\<not> ?age < ex" "\<not> limit_ok ml (last_id cl) (cs_mem ?st ?c)"
    | (cont) "\<not> ?age < ex" "limit_ok ml (last_id cl) (cs_mem ?st ?c)" by blast
  then show ?case
  proof cases
    case young
    with Cons.prems show ?thesis
      by (intro exI [of _ "sint (int_of_long (ex - ?age + 1))"] exI [of _ st] exI [of _ 0])
         (simp add: step)
  next
    case limit
    then obtain msg where "memblock_expire_loop now ex ml cl (LNode m) (lnext (mb_list st) (LNode m)) st =
        Some (-1, emit msg ?st)"
      using step [of "lnext (mb_list st) (LNode m)"]
      by (cases "sint (cs_id (cs_mem ?st ?c)) \<ge> last_id cl + 1") (force simp: limit_ok_def)+
    with limit inv c show ?thesis
      by (intro exI [of _ "-1"] exI [of _ "emit msg ?st"] exI [of _ "Suc 0"])
         (auto simp: memblock_expire_one_blocks intro!: trk_inv_emit same_blocks_expire_one)
  next
    case cont
    then have go: "memblock_expire_loop now ex ml cl (LNode m) (lnext (mb_list st) (LNode m)) st =
        memblock_expire_loop now ex ml cl (hd (map LNode A @ [LHead Active]))
          (lnext (mb_list ?st) (hd (map LNode A @ [LHead Active]))) ?st"
      by (simp add: step safe limit_ok_def)
    from Cons.IH [OF inv] obtain r st' k where k: "k \<le> length A"
      "memblock_expire_loop now ex ml cl (hd (map LNode A @ [LHead Active]))
          (lnext (mb_list ?st) (hd (map LNode A @ [LHead Active]))) ?st = Some (r, st')"
      "trk_inv st' (drop k A) ((E @ [m]) @ take k A) L C"
      "same_blocks st' ?st"
      "\<forall>m \<in> set (take k A). ex \<le> now - mb_create (mb_mem st m)"
      "r = -1 \<and> (\<exists>c \<in> set C. \<not> limit_ok ml (last_id cl) (cs_mem st' c)) \<or>
       ((\<forall>c \<in> set C. limit_ok ml (last_id cl) (cs_mem ?st c)) \<longrightarrow> (\<forall>c \<in> set C. limit_ok ml (last_id cl) (cs_mem st' c))) \<and>
       (r = 0 \<and> drop k A = [] \<or>
        drop k A \<noteq> [] \<and> now - mb_create (mb_mem st (hd (drop k A))) < ex \<and>
        r = sint (int_of_long (ex - (now - mb_create (mb_mem st (hd (drop k A)))) + 1)))"
      unfolding memblock_expire_one_blocks by blast
    moreover have "(\<forall>c \<in> set C. limit_ok ml (last_id cl) (cs_mem st c)) \<longrightarrow> (\<forall>c \<in> set C. limit_ok ml (last_id cl) (cs_mem ?st c))"
      using cont(2) other by metis
    ultimately show ?thesis
      using cont(1) go same_blocks_trans [OF _ same_blocks_expire_one]
      by (intro exI [of _ r] exI [of _ st'] exI [of _ "Suc k"]) (simp, blast)
  qed
qed

text \<open>C5 (memblock_expire_exact): with the blocks in order of allocation and a threshold below
  \<open>2 ^ 31 - 1\<close>, as the limit of call stacks, the check either stops with -1 because a call stack
  broke a limit (it got an identifier above \<open>callstack_limit\<close>, or has \<open>memblock_limit\<close> expired
  blocks), or it moves exactly the blocks of age at least \<open>expire\<close> to the expired list, in order,
  keeps the younger ones active, keeps every call stack within the limits, and returns
  0 if none is left, otherwise one second more than the oldest of them has to live.\<close>

theorem memblock_expire_exact:
  assumes inv: "trk_inv st A E L C" and time: "trk_time st A E now" and ex: "ex < 2 ^ 31 - 1"
    and cl: "- (2 ^ 31) \<le> cl" "cl < 2 ^ 31 - 1" and lim: "\<forall>c \<in> set C. limit_ok ml cl (cs_mem st c)"
  shows "\<exists>r st'. memblock_expire now ex ml cl st = Return (r, st') \<and>
    (r = -1 \<and> (\<exists>c \<in> set C. \<not> limit_ok ml cl (cs_mem st' c)) \<or>
     (let old = (\<lambda>m. ex \<le> now - mb_create (mb_mem st m)); young = filter (Not \<circ> old) A in
      trk_inv st' young (E @ filter old A) L C \<and> (\<forall>c \<in> set C. limit_ok ml cl (cs_mem st' c)) \<and>
      (if young = [] then r = 0 else 0 < r \<and> now + r - mb_create (mb_mem st (hd young)) = ex + 1)))"
proof -
  from inv have hd: "lnext (mb_list st) (LHead Active) = hd (map LNode A @ [LHead Active])"
    by (auto simp: trk_inv_def trk_struct_def is_list_next_head)
  from memblock_expire_loop_spec [OF inv, of now ex ml cl, unfolded last_id_int [OF cl]] obtain r st' k where k1: "k \<le> length A"
    "memblock_expire_loop now ex ml cl (hd (map LNode A @ [LHead Active]))
      (lnext (mb_list st) (hd (map LNode A @ [LHead Active]))) st = Some (r, st')"
    and k3: "trk_inv st' (drop k A) (E @ take k A) L C"
    and k4: "\<forall>m \<in> set (take k A). ex \<le> now - mb_create (mb_mem st m)"
    and c: "r = -1 \<and> (\<exists>c \<in> set C. \<not> limit_ok ml cl (cs_mem st' c)) \<or>
       ((\<forall>c \<in> set C. limit_ok ml cl (cs_mem st c)) \<longrightarrow> (\<forall>c \<in> set C. limit_ok ml cl (cs_mem st' c))) \<and>
       (r = 0 \<and> drop k A = [] \<or>
        drop k A \<noteq> [] \<and> now - mb_create (mb_mem st (hd (drop k A))) < ex \<and>
        r = sint (int_of_long (ex - (now - mb_create (mb_mem st (hd (drop k A)))) + 1)))"
    by blast
  have k2: "memblock_expire now ex ml cl st = Return (r, st')"
    using k1(2) by (simp add: memblock_expire_def hd Let_def)
  let ?old = "\<lambda>m. ex \<le> now - mb_create (mb_mem st m)"
  have srt: "sorted (map (\<lambda>m. mb_create (mb_mem st m)) A)" "\<forall>m \<in> set A. mb_create (mb_mem st m) \<le> now"
    using time by (auto simp: trk_time_def sorted_append)
  have young: "\<not> ?old m" if "now - mb_create (mb_mem st (hd (drop k A))) < ex" "m \<in> set (drop k A)" for m
  proof -
    have "sorted (map (\<lambda>m. mb_create (mb_mem st m)) (drop k A))"
      using srt(1) by (simp add: sorted_wrt_drop flip: drop_map)
    with that show ?thesis by (cases "drop k A") auto
  qed
  have split: "filter ?old A = take k A" "filter (Not \<circ> ?old) A = drop k A"
    if "\<And>m. m \<in> set (drop k A) \<Longrightarrow> \<not> ?old m"
  proof -
    have "filter P A = filter P (take k A) @ filter P (drop k A)" for P
      by (metis append_take_drop_id filter_append)
    then show "filter ?old A = take k A" "filter (Not \<circ> ?old) A = drop k A"
      using k4 that by (auto simp: filter_empty_conv filter_id_conv)
  qed
  show ?thesis
  proof (cases "r = -1 \<and> (\<exists>c \<in> set C. \<not> limit_ok ml cl (cs_mem st' c))")
    case True
    with k2 show ?thesis by blast
  next
    case False
    with c lim have lim': "\<forall>c \<in> set C. limit_ok ml cl (cs_mem st' c)" by blast
    show ?thesis
    proof (cases "drop k A = []")
      case True
      with c False have "r = 0" by auto
      with True k2 k3 lim' split show ?thesis by (auto simp: Let_def)
    next
      case nonempty: False
      with c False have y: "now - mb_create (mb_mem st (hd (drop k A))) < ex"
        and r: "r = sint (int_of_long (ex - (now - mb_create (mb_mem st (hd (drop k A)))) + 1))" by auto
      have "hd (drop k A) \<in> set A" using nonempty by (meson hd_in_set in_set_dropD)
      then have "mb_create (mb_mem st (hd (drop k A))) \<le> now" using srt(2) by blast
      with y ex have "r = ex - (now - mb_create (mb_mem st (hd (drop k A)))) + 1"
        unfolding r by (intro sint_int_of_long) auto
      with y k2 k3 lim' split [OF young [OF y]] nonempty show ?thesis by (auto simp: Let_def)
    qed
  qed
qed

lemma one_block_time: "100 \<le> now \<Longrightarrow> trk_time one_block [7] [] now"
  by (simp add: trk_time_def one_block_fields)

lemma one_block_limits: "\<forall>c \<in> set [3]. limit_ok 1000 1000 (cs_mem one_block c)"
  by (simp add: limit_ok_def one_block_fields zero_callstack_def)

theorem memblock_expire_exact_witness:
  "\<exists>r st'. memblock_expire 104 10 1000 1000 one_block = Return (r, st') \<and>
     (r = -1 \<and> (\<exists>c \<in> set [3]. \<not> limit_ok 1000 1000 (cs_mem st' c)) \<or>
      trk_inv st' [7] [] [7] [3] \<and> 104 + r - mb_create (mb_mem one_block 7) = 11)"
proof -
  have time: "trk_time one_block [7] [] 104" by (simp add: one_block_time)
  from memblock_expire_exact [OF one_block_inv time _ _ _ one_block_limits, of 10] show ?thesis
    by (auto simp: Let_def one_block_fields)
qed

section \<open>Identifiers of leaking call stacks\<close>

definition leaking :: "trk \<Rightarrow> nat list \<Rightarrow> nat set" where
  "leaking st C = {c \<in> set C. cs_id (cs_mem st c) \<noteq> 0}"

definition ids_ok :: "trk \<Rightarrow> nat list \<Rightarrow> bool" where
  "ids_ok st C \<longleftrightarrow> int (card (leaking st C)) = sint (callstack_id st) - 1 \<and>
     inj_on (\<lambda>c. cs_id (cs_mem st c)) (leaking st C) \<and>
     (\<forall>c \<in> leaking st C. 0 < sint (cs_id (cs_mem st c)) \<and> sint (cs_id (cs_mem st c)) < sint (callstack_id st))"

lemma sint_succ:
  fixes x :: cint
  assumes "sint x < 2 ^ 31 - 1"
  shows "sint (x + 1) = sint x + 1"
proof -
  have "- (2 ^ 31) \<le> sint x" using sint_ge [of x] by simp
  moreover have "x + 1 = int_of_long (sint x + 1)" by (simp add: int_of_long_def)
  ultimately show ?thesis using assms by (simp add: sint_int_of_long)
qed

lemma memblock_expire_one_ids:
  assumes c: "mb_callstack (mb_mem st m) \<in> set C" and ids: "ids_ok st C"
    and room: "sint (callstack_id st) < 2 ^ 31 - 1"
  shows "ids_ok (memblock_expire_one m st) C"
proof -
  let ?c = "mb_callstack (mb_mem st m)" and ?st = "memblock_expire_one m st"
  have pos: "0 < sint (callstack_id st)" using ids by (simp add: ids_ok_def)
  then have nz: "callstack_id st \<noteq> 0" by auto
  show ?thesis
  proof (cases "cs_id (cs_mem st ?c) = 0")
    case True
    have id: "cs_id (cs_mem ?st k) = (if k = ?c then callstack_id st else cs_id (cs_mem st k))" for k
      using True by (simp add: trk_simps Let_def)
    have l: "leaking ?st C = insert ?c (leaking st C)" and new: "?c \<notin> leaking st C" "finite (leaking st C)"
      using True c nz by (auto simp: leaking_def id)
    have s: "sint (callstack_id ?st) = sint (callstack_id st) + 1"
      using True sint_succ [OF room] by (simp add: trk_simps)
    have old: "inj_on (\<lambda>k. cs_id (cs_mem st k)) (leaking st C)"
      "\<And>k. k \<in> leaking st C \<Longrightarrow> 0 < sint (cs_id (cs_mem st k)) \<and> sint (cs_id (cs_mem st k)) < sint (callstack_id st)"
      using ids by (auto simp: ids_ok_def)
    have same: "cs_id (cs_mem ?st k) = cs_id (cs_mem st k)" if "k \<in> leaking st C" for k
      using that new(1) by (auto simp: id)
    have "inj_on (\<lambda>k. cs_id (cs_mem ?st k)) (leaking st C)"
      using old(1) same by (subst inj_on_cong [of _ _ "\<lambda>k. cs_id (cs_mem st k)"]) auto
    moreover have "cs_id (cs_mem ?st ?c) \<notin> (\<lambda>k. cs_id (cs_mem ?st k)) ` leaking st C"
    proof
      assume "cs_id (cs_mem ?st ?c) \<in> (\<lambda>k. cs_id (cs_mem ?st k)) ` leaking st C"
      then obtain k where "k \<in> leaking st C" "callstack_id st = cs_id (cs_mem st k)"
        using same id [of ?c] by auto
      with old(2) [of k] show False by simp
    qed
    ultimately have "inj_on (\<lambda>k. cs_id (cs_mem ?st k)) (leaking ?st C)"
      unfolding l using new(1) by simp
    moreover have "int (card (leaking ?st C)) = sint (callstack_id ?st) - 1"
      using ids new by (simp add: ids_ok_def s l)
    moreover have "0 < sint (cs_id (cs_mem ?st k)) \<and> sint (cs_id (cs_mem ?st k)) < sint (callstack_id ?st)"
      if "k \<in> leaking ?st C" for k
      using that old(2) [of k] pos unfolding l s by (auto simp: id)
    ultimately show ?thesis by (simp add: ids_ok_def)
  next
    case False
    have id: "cs_id (cs_mem ?st k) = cs_id (cs_mem st k)" for k
      using False by (simp add: trk_simps Let_def)
    then have "leaking ?st C = leaking st C" by (simp add: leaking_def)
    with False ids show ?thesis by (simp add: ids_ok_def id memblock_expire_one_fields(7))
  qed
qed

text \<open>C18 (expire_one_reports): expiring a block numbers its call stack when it leaks for the
  first time, with the next free number, so that numbers stay unique and count the
  leaking call stacks; then the backtrace is printed. Later expiries of the same call
  stack print one line, and none once three of its expired blocks were freed.\<close>

theorem expire_one_reports:
  assumes inv: "trk_inv st A E L C" and m: "m \<in> set A" and ids: "ids_ok st C"
    and room: "sint (callstack_id st) < 2 ^ 31 - 1"
  shows "let c = mb_callstack (mb_mem st m); st' = memblock_expire_one m st; cs = cs_mem st' c in
    ids_ok st' C \<and> c \<in> leaking st' C \<and> leaking st' C = insert c (leaking st C) \<and>
    expired_count cs = expired_count (cs_mem st c) + 1 \<and>
    (if c \<notin> leaking st C then
       cs_id cs = callstack_id st \<and>
       out st' = out st @ [Expires (cs_id cs) (mb_size (mb_mem st m)) (callstack_print (tables st) cs)]
     else cs_id cs = cs_id (cs_mem st c) \<and>
       out st' = out st @ (if sint (free_expired_count cs) < 3
          then [ExpiresAgain (cs_id cs) (mb_size (mb_mem st m)) (expired_count cs)] else []))"
proof -
  let ?c = "mb_callstack (mb_mem st m)" and ?st = "memblock_expire_one m st"
  have c: "?c \<in> set C" using inv m by (auto simp: trk_inv_def trk_struct_def)
  have i: "ids_ok ?st C" by (rule memblock_expire_one_ids [OF c ids room])
  have nz: "callstack_id st \<noteq> 0" using ids by (auto simp: ids_ok_def)
  have out: "out ?st = (if cs_id (cs_mem st ?c) = 0
       then out st @ [Expires (cs_id (cs_mem ?st ?c)) (mb_size (mb_mem st m)) (callstack_print (tables st) (cs_mem ?st ?c))]
       else out st @ (if sint (free_expired_count (cs_mem ?st ?c)) < 3
          then [ExpiresAgain (cs_id (cs_mem ?st ?c)) (mb_size (mb_mem st m)) (expired_count (cs_mem ?st ?c))] else []))"
    by (simp add: memblock_expire_one_def Let_def DONOT_SHOW_AFTER_FREE_EXPIRES_def)
  have l: "leaking ?st C = insert ?c (leaking st C)"
    using c nz by (auto simp: leaking_def memblock_expire_one_fields(6) Let_def split: if_splits)
  show ?thesis
    unfolding Let_def out using i l c
    by (auto simp: leaking_def memblock_expire_one_fields(6) Let_def)
qed

lemma one_block_leaking: "leaking one_block [3] = {}"
  by (auto simp: leaking_def one_block_fields zero_callstack_def)

lemma one_block_ids: "ids_ok one_block [3]"
  by (simp add: ids_ok_def one_block_leaking one_block_fields)

theorem expire_one_reports_witness:
  "ids_ok (memblock_expire_one 7 one_block) [3] \<and> leaking (memblock_expire_one 7 one_block) [3] = {3} \<and>
   out (memblock_expire_one 7 one_block) = out one_block @
     [Expires 1 24 (callstack_print env0 (cs_mem (memblock_expire_one 7 one_block) 3))]"
proof -
  have "(7::nat) \<in> set [7]" by simp
  from expire_one_reports [OF one_block_inv this one_block_ids] one_block_leaking show ?thesis
    by (simp add: Let_def one_block_fields)
qed

section \<open>Live times\<close>

definition free_all :: "(int \<times> memblock_s) list \<Rightarrow> callstack_s \<Rightarrow> callstack_s" where
  "free_all xs cs = fold (\<lambda>(t, b). count_free t b) xs cs"

lemma free_all_bounds:
  assumes "\<forall>x \<in> set xs. 0 < fst x \<and> fst x < 2 ^ 31"
    and "0 < sint (free_min cs)" "0 \<le> sint (free_max cs)"
  shows "sint (free_min (free_all xs cs)) = fold min (map fst xs) (sint (free_min cs)) \<and>
     sint (free_max (free_all xs cs)) = fold max (map fst xs) (sint (free_max cs))"
  using assms
proof (induction xs arbitrary: cs)
  case (Cons x xs)
  obtain t b where x: "x = (t, b)" by fastforce
  have t: "0 < t" "t < 2 ^ 31" "sint (int_of_long t) = t"
    using Cons.prems(1) x by (auto intro: sint_int_of_long)
  have nz: "free_min cs \<noteq> 0" using Cons.prems(2) by auto
  have mn: "sint (free_min (count_free t b cs)) = min t (sint (free_min cs))"
    using t nz by (simp add: count_free_def Let_def min_def)
  have mx: "sint (free_max (count_free t b cs)) = max t (sint (free_max cs))"
    using t by (simp add: count_free_def Let_def max_def)
  have "sint (free_min (free_all xs (count_free t b cs))) =
      fold min (map fst xs) (sint (free_min (count_free t b cs))) \<and>
    sint (free_max (free_all xs (count_free t b cs))) =
      fold max (map fst xs) (sint (free_max (count_free t b cs)))"
    by (rule Cons.IH) (use Cons.prems t mn mx in auto)
  then show ?case by (simp add: free_all_def x mn mx)
qed (simp add: free_all_def)

text \<open>Fact (free_times_summary): if every freed block lived at least one second, the call stack
  shows the smallest and the largest of the live times.\<close>

theorem free_times_summary:
  assumes "xs \<noteq> []" and "\<forall>x \<in> set xs. 0 < fst x \<and> fst x < 2 ^ 31"
    and "free_min cs = 0" and "free_max cs = 0"
  shows "sint (free_min (free_all xs cs)) = Min (set (map fst xs)) \<and>
     sint (free_max (free_all xs cs)) = Max (set (map fst xs))"
proof -
  from assms(1) obtain t b ys where xs: "xs = (t, b) # ys" by (cases xs) auto
  have t: "0 < t" "sint (int_of_long t) = t"
    using assms(2) xs by (auto intro: sint_int_of_long)
  have mn: "sint (free_min (count_free t b cs)) = t" and mx: "sint (free_max (count_free t b cs)) = t"
    using t assms(3,4) by (simp_all add: count_free_def Let_def)
  have "sint (free_min (free_all ys (count_free t b cs))) = fold min (map fst ys) t \<and>
     sint (free_max (free_all ys (count_free t b cs))) = fold max (map fst ys) t"
    using free_all_bounds [of ys "count_free t b cs"] assms(2) xs t by (simp add: mn mx)
  moreover have "free_all xs cs = free_all ys (count_free t b cs)" by (simp add: free_all_def xs)
  ultimately show ?thesis
    using Min.set_eq_fold [of t "map fst ys"] Max.set_eq_fold [of t "map fst ys"] xs by simp
qed

definition some_block :: memblock_s where
  "some_block = \<lparr>mb_pointer = 0x5000, mb_size = 24, mb_create = 100, mb_expired = False, mb_callstack = 3\<rparr>"

theorem free_times_summary_witness:
  "sint (free_min (free_all [(5, some_block), (2, some_block), (9, some_block)] zero_callstack)) = 2 \<and>
   sint (free_max (free_all [(5, some_block), (2, some_block), (9, some_block)] zero_callstack)) = 9"
  using free_times_summary [of "[(5, some_block), (2, some_block), (9, some_block)]" zero_callstack]
  by (simp add: zero_callstack_def)

text \<open>Fact (free_min_forgets_zero): a minimum of 0 seconds is taken for no value at all. After a
  block that lived 0 seconds and one that lived 5 seconds the smallest live time is
  shown as 5.\<close>

theorem free_min_forgets_zero:
  "sint (free_min (free_all [(0, some_block), (5, some_block)] zero_callstack)) = 5"
  by (simp add: free_all_def count_free_def zero_callstack_def Let_def int_of_long_def)

definition age32 :: "int \<Rightarrow> trk \<Rightarrow> nat \<Rightarrow> cint" where
  "age32 now st m = int_of_long (now - mb_create (mb_mem st m))"

definition first_age :: "int \<Rightarrow> trk \<Rightarrow> nat \<Rightarrow> nat list \<Rightarrow> cint" where
  "first_age now st c ms =
     (case find (\<lambda>m. mb_callstack (mb_mem st m) = c \<and> age32 now st m \<noteq> 0) ms of
        None \<Rightarrow> 0 | Some m \<Rightarrow> age32 now st m)"

lemma count_unfree_fields:
  "mb_mem (count_unfree now m st) = mb_mem st" "mb_list (count_unfree now m st) = mb_list st"
  "cs_mem (count_unfree now m st) = (cs_mem st)(mb_callstack (mb_mem st m) :=
     (let cs = cs_mem st (mb_callstack (mb_mem st m))
      in if unfree_max cs = 0 then cs\<lparr>unfree_max := age32 now st m\<rparr> else cs))"
  by (simp_all add: count_unfree_def Let_def age32_def)

lemma fold_count_unfree:
  "mb_mem (fold (count_unfree now) ms st) = mb_mem st \<and>
   mb_list (fold (count_unfree now) ms st) = mb_list st \<and>
   unfree_max (cs_mem (fold (count_unfree now) ms st) c) =
     (if unfree_max (cs_mem st c) \<noteq> 0 then unfree_max (cs_mem st c) else first_age now st c ms)"
proof (induction ms arbitrary: st)
  case (Cons m ms)
  let ?st = "count_unfree now m st"
  have a: "age32 now ?st = age32 now st" by (simp add: age32_def count_unfree_fields fun_eq_iff)
  have "first_age now ?st c ms = first_age now st c ms"
    unfolding first_age_def a by (simp add: count_unfree_fields)
  then show ?case
    using Cons [of ?st] by (auto simp: count_unfree_fields Let_def first_age_def)
qed (simp add: first_age_def)

lemma first_age_max:
  assumes srt: "sorted (map (\<lambda>m. mb_create (mb_mem st m)) ms)"
    and bnd: "\<forall>m \<in> set ms. mb_create (mb_mem st m) \<le> now \<and> now - mb_create (mb_mem st m) < 2 ^ 31"
    and ex: "\<exists>m \<in> set ms. mb_callstack (mb_mem st m) = c"
  shows "sint (first_age now st c ms) =
     Max ((\<lambda>m. now - mb_create (mb_mem st m)) ` {m \<in> set ms. mb_callstack (mb_mem st m) = c})"
  using assms
proof (induction ms)
  case (Cons m ms)
  let ?age = "\<lambda>m. now - mb_create (mb_mem st m)" and ?on = "\<lambda>m. mb_callstack (mb_mem st m) = c"
  have s: "sint (age32 now st k) = ?age k" if "k \<in> set (m # ms)" for k
    unfolding age32_def by (rule sint_int_of_long) (use Cons.prems(2) that in force)+
  show ?case
  proof (cases "?on m")
    case True
    have older: "?age k \<le> ?age m" if "k \<in> set ms" for k
      using Cons.prems(1) that by auto
    have "Max (?age ` {k \<in> set (m # ms). ?on k}) = ?age m"
      by (rule Max_eqI) (use True older in auto)
    moreover have "sint (first_age now st c (m # ms)) = ?age m"
    proof (cases "age32 now st m = 0")
      case False
      with True s show ?thesis by (simp add: first_age_def)
    next
      case zero: True
      then have "?age m = 0" using s [of m] by simp
      then have "?age k = 0" if "k \<in> set ms" for k
        using older [OF that] Cons.prems(2) that by force
      then have "age32 now st k = 0" if "k \<in> set (m # ms)" for k
        using that zero by (auto simp: age32_def)
      then have "first_age now st c (m # ms) = 0"
        by (auto simp: first_age_def split: option.splits dest: find_Some_set)
      with \<open>?age m = 0\<close> show ?thesis by simp
    qed
    ultimately show ?thesis by simp
  next
    case False
    then have "{k \<in> set (m # ms). ?on k} = {k \<in> set ms. ?on k}" by auto
    moreover have "first_age now st c (m # ms) = first_age now st c ms"
      using False by (simp add: first_age_def)
    moreover have "sint (first_age now st c ms) = Max (?age ` {k \<in> set ms. ?on k})"
      by (rule Cons.IH) (use Cons.prems False in auto)
    ultimately show ?thesis by simp
  qed
qed simp

lemma memblock_count_eq:
  assumes "trk_inv st A E L C"
  shows "memblock_count now st = Return (fold (count_unfree now) (E @ A) st)"
proof -
  have map: "fold (\<lambda>p. count_unfree now (list_entry p)) (map LNode ms) s = fold (count_unfree now) ms s"
    for ms and s :: trk by (induction ms arbitrary: s) auto
  have "list_for_each (LHead Expire) (mb_list st) = Some (map LNode E)"
    "list_for_each (LHead Active) (mb_list st) = Some (map LNode A)"
    using assms by (auto simp: trk_inv_def trk_struct_def is_list_list_for_each)
  then show ?thesis
    using fold_count_unfree [of now E st] by (simp add: memblock_count_def Let_def map)
qed

text \<open>C30 (memblock_count_oldest): before the final report the field \<open>unfree_max\<close> of a call
  stack with unfreed blocks becomes the age of the oldest of them.\<close>

theorem memblock_count_oldest:
  assumes inv: "trk_inv st A E L C" and time: "trk_time st A E now"
    and short: "\<forall>m \<in> set (E @ A). now - mb_create (mb_mem st m) < 2 ^ 31"
    and c: "\<exists>m \<in> set (E @ A). mb_callstack (mb_mem st m) = c" and "unfree_max (cs_mem st c) = 0"
  shows "\<exists>st'. memblock_count now st = Return st' \<and>
     sint (unfree_max (cs_mem st' c)) =
       Max ((\<lambda>m. now - mb_create (mb_mem st m)) ` {m \<in> set (E @ A). mb_callstack (mb_mem st m) = c})"
proof -
  let ?st = "fold (count_unfree now) (E @ A) st"
  have "memblock_count now st = Return ?st" by (rule memblock_count_eq [OF inv])
  moreover have "sint (first_age now st c (E @ A)) =
      Max ((\<lambda>m. now - mb_create (mb_mem st m)) ` {m \<in> set (E @ A). mb_callstack (mb_mem st m) = c})"
    using time short c by (intro first_age_max) (auto simp: trk_time_def)
  ultimately show ?thesis
    using fold_count_unfree [of now "E @ A" st c] assms(5) by auto
qed

theorem memblock_count_oldest_witness:
  "\<exists>st'. memblock_count 120 one_block = Return st' \<and> sint (unfree_max (cs_mem st' 3)) = 20"
proof -
  have time: "trk_time one_block [7] [] 120" by (simp add: one_block_time)
  have "{m. m = (7::nat) \<and> mb_callstack (mb_mem one_block m) = 3} = {7}"
    by (auto simp: one_block_fields)
  with memblock_count_oldest [OF one_block_inv time, of 3] show ?thesis
    by (simp add: one_block_fields zero_callstack_def)
qed

section \<open>Deviations\<close>

text \<open>Fact (realloc_expired_drift): \<open>memblock_update_size\<close> changes the size of an expired block
  without touching \<open>expired_size\<close>, yet a later free books the new size on
  \<open>free_expired_size\<close>. The bytes shown as may-leak then fall by the new size instead of
  by the size that was booked when the block expired.\<close>

theorem realloc_expired_drift:
  assumes "trk_inv st A E L C" and "m \<in> set E"
  shows "let c = mb_callstack (mb_mem st m); cs = cs_mem st c;
      cs' = cs_mem (memblock_delete now (Some m) (memblock_update_size (Some m) sz st)) c in
    expired_size cs' - free_expired_size cs' = expired_size cs - free_expired_size cs - int_of_size sz"
proof -
  have "mb_expired (mb_mem st m)" using assms by (auto simp: trk_inv_def trk_struct_def)
  then show ?thesis by (simp add: Let_def trk_simps memblock_update_size_def algebra_simps)
qed

theorem realloc_expired_drift_witness:
  "let st = memblock_expire_one 7 one_block;
       cs' = cs_mem (memblock_delete 130 (Some 7) (memblock_update_size (Some 7) 10 st)) 3 in
     mb_size (mb_mem st 7) = 24 \<and> expired_count cs' = free_expired_count cs' \<and>
     expired_size cs' - free_expired_size cs' = 14"
proof -
  let ?st = "memblock_expire_one 7 one_block"
  have inv: "trk_inv ?st [] [7] [7] [3]"
    using trk_inv_expire_one [OF one_block_inv, of 7] by simp
  have f: "mb_callstack (mb_mem ?st 7) = 3" "mb_size (mb_mem ?st 7) = 24" "mb_expired (mb_mem ?st 7)"
    "expired_size (cs_mem ?st 3) = 24" "free_expired_size (cs_mem ?st 3) = 0"
    "expired_count (cs_mem ?st 3) = 1" "free_expired_count (cs_mem ?st 3) = 0"
    by (simp_all add: trk_simps one_block_fields zero_callstack_def Let_def int_of_size_def)
  have "(7::nat) \<in> set [7]" by simp
  from realloc_expired_drift [OF inv this, of 130 10] f show ?thesis
    by (simp add: Let_def trk_simps memblock_update_size_def int_of_size_def)
qed

lemma one_block_young:
  assumes "now - 100 < ex"
  shows "memblock_expire now ex ml cl one_block = Return (sint (int_of_long (ex - (now - 100) + 1)), one_block)"
proof -
  have "lnext (mb_list one_block) (LHead Active) = LNode 7"
    using one_block_inv is_list_next_head [of "mb_list one_block" Active "[7]"]
    by (simp add: trk_inv_def trk_struct_def)
  with assms show ?thesis
    by (simp add: memblock_expire_def memblock_expire_loop.simps Let_def one_block_fields)
qed

text \<open>Fact (callstack_limit_overflow): with the largest limit of call stacks, \<open>callstack_limit + 1\<close> overflows to the
  smallest \<open>int\<close>: the first block that expires ends the monitoring, though one call stack leaks and no
  limit is reached.\<close>

theorem callstack_limit_overflow:
  "\<exists>st'. memblock_expire 110 10 1000 (2 ^ 31 - 1) one_block = Return (-1, st') \<and>
     (\<forall>c \<in> set [3]. limit_ok 1000 (2 ^ 31 - 1) (cs_mem st' c))"
proof -
  have "lnext (mb_list one_block) (LHead Active) = LNode 7"
    using one_block_inv is_list_next_head [of "mb_list one_block" Active "[7]"]
    by (simp add: trk_inv_def trk_struct_def)
  moreover have "sint (int_of_long 2147483648) \<le> sint (cs_id cs)" for cs :: callstack_s
    using sint_ge [of "cs_id cs"] by (simp add: int_of_long_def)
  ultimately have "memblock_expire 110 10 1000 (2 ^ 31 - 1) one_block =
      Return (-1, emit (CallStacksLeak (2 ^ 31 - 1)) (memblock_expire_one 7 one_block))"
    unfolding memblock_expire_def by (subst memblock_expire_loop.simps) (simp add: Let_def one_block_fields)
  then show ?thesis
    by (simp add: limit_ok_def memblock_expire_one_fields(6) one_block_fields Let_def zero_callstack_def count_expired_def)
qed

text \<open>Fact (expire_threshold_overflow): with the threshold \<open>2 ^ 31 - 1\<close> the time until the next
  check does not fit an \<open>int\<close>; a fresh block makes the check return a negative
  number, which ends the monitoring as if a limit had been reached.\<close>

theorem expire_threshold_overflow:
  "\<exists>r. memblock_expire 100 (2 ^ 31 - 1) 1000 1000 one_block = Return (r, one_block) \<and> r < 0"
  using one_block_young [of 100 "2 ^ 31 - 1" 1000 1000] by (simp add: int_of_long_def)

end
