(* ===== verification/C_Text.thy ===== *)
theory C_Text
  imports Mlx_Prelude
begin

text \<open>
  The conversions between text and numbers of the C library that the program uses:
  \<open>atoi\<close>, the directives of \<open>sscanf\<close> that \<open>src/proc_info.c\<close> uses, \<open>fgets\<close>, and the printing
  of numbers with \<open>%x\<close> and \<open>%d\<close>, which scanning reads back.
\<close>

section \<open>Numbers\<close>

definition is_space :: "char \<Rightarrow> bool" where
  "is_space c \<longleftrightarrow> of_char c \<in> {9, 10, 11, 12, 13, 32 :: nat}"

definition is_digit :: "char \<Rightarrow> bool" where
  "is_digit c \<longleftrightarrow> 48 \<le> (of_char c :: nat) \<and> (of_char c :: nat) \<le> 57"

definition digits_value :: "string \<Rightarrow> int" where
  "digits_value s = fold (\<lambda>c v. 10 * v + (of_char c - 48)) (takeWhile is_digit s) 0"

text \<open>\<open>atoi\<close> as glibc does it: \<open>strtol\<close>, which saturates, converted to \<open>int\<close>.\<close>

definition saturate_long :: "int \<Rightarrow> int" where
  "saturate_long v = max (- (2 ^ 63)) (min (2 ^ 63 - 1) v)"

definition atoi :: "string \<Rightarrow> int" where
  "atoi s =
     (let s = dropWhile is_space s;
          v = (case s of
                 [] \<Rightarrow> 0
               | c # cs \<Rightarrow> if c = CHR ''-'' then - digits_value cs
                            else if c = CHR ''+'' then digits_value cs else digits_value s)
      in sint (int_of_long (saturate_long v)))"

text \<open>The value of a digit in a base up to 16; no digit has the value 99.\<close>

definition digit_of :: "char \<Rightarrow> nat" where
  "digit_of c =
     (let k = of_char c
      in if 48 \<le> k \<and> k \<le> 57 then k - 48
         else if 97 \<le> k \<and> k \<le> 102 then k - 87
         else if 65 \<le> k \<and> k \<le> 70 then k - 55 else 99)"

definition digit_char :: "nat \<Rightarrow> char" where
  "digit_char d = char_of (if d < 10 then 48 + d else 87 + d)"

fun print_base :: "nat \<Rightarrow> nat \<Rightarrow> string" where
  "print_base b n =
     (if b < 2 \<or> n < b then [digit_char n] else print_base b (n div b) @ [digit_char (n mod b)])"

declare print_base.simps [simp del]

text \<open>\<open>%0wx\<close> pads with zeros.\<close>

definition print_hex :: "nat \<Rightarrow> nat \<Rightarrow> string" where
  "print_hex w n = replicate (w - length (print_base 16 n)) (CHR ''0'') @ print_base 16 n"

definition base_value :: "nat \<Rightarrow> string \<Rightarrow> nat" where
  "base_value b ds = foldl (\<lambda>v c. v * b + digit_of c) 0 ds"

section \<open>Scanning\<close>

text \<open>An optional sign, an optional \<open>0x\<close> in base 16, and at least one digit.\<close>

definition scan_sign :: "string \<Rightarrow> bool \<times> string" where
  "scan_sign s =
     (case s of [] \<Rightarrow> (False, [])
      | c # cs \<Rightarrow> if c = CHR ''-'' then (True, cs) else if c = CHR ''+'' then (False, cs) else (False, s))"

fun scan_prefix :: "nat \<Rightarrow> string \<Rightarrow> string" where
  "scan_prefix b (x # y # s) =
     (if b = 16 \<and> x = CHR ''0'' \<and> (y = CHR ''x'' \<or> y = CHR ''X'') then s else x # y # s)"
| "scan_prefix b s = s"

definition scan_int :: "nat \<Rightarrow> string \<Rightarrow> (int \<times> string) option" where
  "scan_int b s =
     (case scan_sign s of (neg, s) \<Rightarrow>
        let s = scan_prefix b s; ds = takeWhile (\<lambda>c. digit_of c < b) s; v = int (base_value b ds)
        in if ds = [] then None else Some (if neg then - v else v, drop (length ds) s))"

datatype scan_dir = ScanSpace | ScanLit char | ScanHex | ScanDec | ScanStr

datatype scan_val = SNum int | SStr string

text \<open>What \<open>%zx\<close> stores: \<open>strtoul\<close> gives the largest number when the digits have more than 64 bits,
  and negates a number with a minus sign.\<close>

definition ulong_of :: "int \<Rightarrow> u64" where
  "ulong_of v = (if \<bar>v\<bar> < 2 ^ 64 then word_of_int v else - 1)"

text \<open>The values assigned up to the first directive that does not match.\<close>

fun sscanf :: "string \<Rightarrow> scan_dir list \<Rightarrow> scan_val list" where
  "sscanf s [] = []"
| "sscanf s (ScanSpace # ds) = sscanf (dropWhile is_space s) ds"
| "sscanf s (ScanLit c # ds) =
     (case s of [] \<Rightarrow> [] | x # s \<Rightarrow> if x = c then sscanf s ds else [])"
| "sscanf s (ScanHex # ds) =
     (case scan_int 16 (dropWhile is_space s) of None \<Rightarrow> [] | Some (v, s) \<Rightarrow> SNum v # sscanf s ds)"
| "sscanf s (ScanDec # ds) =
     (case scan_int 10 (dropWhile is_space s) of None \<Rightarrow> [] | Some (v, s) \<Rightarrow> SNum v # sscanf s ds)"
| "sscanf s (ScanStr # ds) =
     (let s = dropWhile is_space s; w = takeWhile (Not \<circ> is_space) s
      in if w = [] then [] else SStr w # sscanf (drop (length w) s) ds)"

text \<open>\<open>fgets\<close> with a buffer of \<open>n + 1\<close> characters on the rest of a file.\<close>

fun fgets_line :: "nat \<Rightarrow> string \<Rightarrow> string" where
  "fgets_line 0 s = []"
| "fgets_line (Suc n) [] = []"
| "fgets_line (Suc n) (c # s) = (if c = CHR 0x0A then [c] else c # fgets_line n s)"

definition fgets :: "nat \<Rightarrow> string \<Rightarrow> (string \<times> string) option" where
  "fgets sz s =
     (if s = [] then None else let line = fgets_line (sz - 1) s in Some (line, drop (length line) s))"

section \<open>Scanning reads back what printing writes\<close>

lemma ulong_of_uint [simp]: "ulong_of (uint (w :: u64)) = w"
  using uint_lt2p [of w] by (simp add: ulong_of_def)

lemma digit_of_digit_char: "d < 16 \<Longrightarrow> digit_of (digit_char d) = d"
  by (auto simp: digit_of_def digit_char_def Let_def of_char_of)

lemma digit_of_not_space: "digit_of c < 99 \<Longrightarrow> \<not> is_space c"
  by (auto simp: digit_of_def is_space_def Let_def split: if_splits)

lemma print_base_digits: "b \<le> 16 \<Longrightarrow> 2 \<le> b \<Longrightarrow> c \<in> set (print_base b n) \<Longrightarrow> digit_of c < b"
proof (induction b n rule: print_base.induct)
  case (1 b n)
  have "n mod b < b" "n mod b < 16" using 1(2,3) mod_less_divisor [of b n] by linarith+
  with 1 show ?case
    by (subst (asm) (2) print_base.simps) (auto simp: digit_of_digit_char split: if_splits)
qed

lemma base_value_snoc: "base_value b (ds @ [c]) = base_value b ds * b + digit_of c"
  by (simp add: base_value_def)

lemma base_value_print_base: "b \<le> 16 \<Longrightarrow> 2 \<le> b \<Longrightarrow> base_value b (print_base b n) = n"
proof (induction b n rule: print_base.induct)
  case (1 b n)
  show ?case
  proof (cases "n < b")
    case True
    with 1 show ?thesis
      by (subst print_base.simps) (simp add: base_value_def digit_of_digit_char)
  next
    case False
    have m: "n mod b < 16" using 1(2,3) mod_less_divisor [of b n] by linarith
    with 1 False show ?thesis
      by (subst print_base.simps) (simp add: base_value_snoc digit_of_digit_char)
  qed
qed

lemma base_value_zeros: "base_value b (replicate k (CHR ''0'') @ ds) = base_value b ds"
proof -
  have "digit_of (CHR ''0'') = 0" by (simp add: digit_of_def)
  then have "foldl (\<lambda>v c. v * b + digit_of c) 0 (replicate k (CHR ''0'')) = 0" by (induction k) auto
  then show ?thesis by (simp add: base_value_def)
qed

lemma print_hex_digits: "c \<in> set (print_hex w n) \<Longrightarrow> digit_of c < 16"
  using print_base_digits [of 16 c n] by (auto simp: print_hex_def digit_of_def)

lemma print_base_nonempty [simp]: "print_base b n \<noteq> []"
  by (subst print_base.simps) simp

lemma print_hex_nonempty [simp]: "print_hex w n \<noteq> []"
  by (simp add: print_hex_def)

lemma base_value_print_hex: "base_value 16 (print_hex w n) = n"
  by (simp add: print_hex_def base_value_zeros base_value_print_base)

lemma scan_int_digits:
  assumes "ds \<noteq> []" and "\<And>d. d \<in> set ds \<Longrightarrow> digit_of d < b" and "b \<le> 16" and "digit_of c = 99"
    and "c \<noteq> CHR ''x''" and "c \<noteq> CHR ''X''"
  shows "scan_int b (ds @ c # s) = Some (int (base_value b ds), c # s)"
proof -
  obtain d ds' where ds: "ds = d # ds'" using assms(1) by (cases ds) auto
  have x: "\<not> digit_of (CHR ''x'') < 16" "\<not> digit_of (CHR ''X'') < 16" "\<not> digit_of (CHR ''-'') < 16"
    "\<not> digit_of (CHR ''+'') < 16" by (simp_all add: digit_of_def)
  have lt: "d \<in> set ds \<Longrightarrow> digit_of d < 16" for d using assms(2) [of d] assms(3) by simp
  have "d \<noteq> CHR ''-''" "d \<noteq> CHR ''+''" using x lt [of d] by (auto simp: ds)
  then have sg: "scan_sign (ds @ c # s) = (False, ds @ c # s)" by (simp add: scan_sign_def ds)
  have "scan_prefix b (ds @ c # s) = ds @ c # s"
  proof (cases ds')
    case Nil
    then show ?thesis using assms(5,6) by (simp add: ds)
  next
    case (Cons e es)
    then have "e \<noteq> CHR ''x''" "e \<noteq> CHR ''X''" using x lt [of e] by (auto simp: ds)
    then show ?thesis by (simp add: ds Cons)
  qed
  moreover have "takeWhile (\<lambda>c. digit_of c < b) (ds @ c # s) = ds"
    using assms(2,3,4) by (simp add: takeWhile_append2 takeWhile_tail)
  ultimately show ?thesis using sg assms(1) by (simp add: scan_int_def Let_def)
qed

lemma dropWhile_hd: "s \<noteq> [] \<Longrightarrow> \<not> P (hd s) \<Longrightarrow> dropWhile P s = s"
  by (cases s) auto

lemma sscanf_hex:
  assumes "digit_of c = 99" and "c \<noteq> CHR ''x''" and "c \<noteq> CHR ''X''"
  shows "sscanf (print_hex w n @ c # s) (ScanHex # ds) = SNum (int n) # sscanf (c # s) ds"
proof -
  have "digit_of (hd (print_hex w n)) < 16" using print_hex_digits hd_in_set print_hex_nonempty by blast
  then have "dropWhile is_space (print_hex w n @ c # s) = print_hex w n @ c # s"
    by (intro dropWhile_hd) (auto intro!: digit_of_not_space)
  moreover have "scan_int 16 (print_hex w n @ c # s) = Some (int n, c # s)"
    by (subst scan_int_digits) (use assms print_hex_digits in \<open>auto simp: base_value_print_hex\<close>)
  ultimately show ?thesis by simp
qed

lemma sscanf_dec:
  assumes "digit_of c = 99" and "c \<noteq> CHR ''x''" and "c \<noteq> CHR ''X''"
  shows "sscanf (print_base 10 n @ c # s) (ScanDec # ds) = SNum (int n) # sscanf (c # s) ds"
proof -
  have dg: "d \<in> set (print_base 10 n) \<Longrightarrow> digit_of d < 10" for d by (rule print_base_digits) simp_all
  from dg [of "hd (print_base 10 n)"] have "dropWhile is_space (print_base 10 n @ c # s) = print_base 10 n @ c # s"
    by (intro dropWhile_hd) (auto intro!: digit_of_not_space)
  moreover have "scan_int 10 (print_base 10 n @ c # s) = Some (int n, c # s)"
    by (subst scan_int_digits) (use assms dg in \<open>auto simp: base_value_print_base\<close>)
  ultimately show ?thesis by simp
qed

lemma sscanf_str:
  assumes "w \<noteq> []" and "\<forall>x \<in> set w. \<not> is_space x" and "is_space c"
  shows "sscanf (w @ c # s) (ScanStr # ds) = SStr w # sscanf (c # s) ds"
proof -
  have "dropWhile is_space (w @ c # s) = w @ c # s" using assms by (intro dropWhile_hd) auto
  moreover have "takeWhile (Not \<circ> is_space) (w @ c # s) = w" using assms by (simp add: takeWhile_append2 takeWhile_tail)
  ultimately show ?thesis using assms(1) by (simp add: Let_def)
qed

lemma fgets_line_newline:
  assumes "CHR 0x0A \<notin> set l" and "length l < n"
  shows "fgets_line n (l @ CHR 0x0A # s) = l @ [CHR 0x0A]"
  using assms
proof (induction l arbitrary: n)
  case Nil
  then show ?case by (cases n) auto
next
  case (Cons c l)
  then show ?case by (cases n) auto
qed

lemma fgets_newline:
  assumes "CHR 0x0A \<notin> set l" and "length l + 1 < sz"
  shows "fgets sz (l @ CHR 0x0A # s) = Some (l @ [CHR 0x0A], s)"
  using fgets_line_newline [OF assms(1), of "sz - 1" s] assms(2) by (simp add: fgets_def)

lemma fgets_shorter:
  assumes "fgets sz s = Some (line, rest)" and "2 \<le> sz"
  shows "length rest < length s"
proof -
  from assms obtain k where "s \<noteq> []" "line = fgets_line (Suc k) s" "rest = drop (length line) s"
    by (cases "sz - 1") (auto simp: fgets_def Let_def split: if_splits)
  then show ?thesis by (cases s) auto
qed

text \<open>Only non-zero ids come from names that start with a digit.\<close>

lemma atoi_dots: "atoi ''.'' = 0" "atoi ''..'' = 0"
  by (simp_all add: atoi_def is_space_def digits_value_def is_digit_def saturate_long_def)

end
