(* ===== verification/Proc_Info.thy ===== *)
theory Proc_Info
  imports C_Text
begin

text \<open>
  \<open>src/proc_info.c\<close>: the executable mappings and the threads of a process, on Linux from
  the text files of \<open>/proc\<close> and on FreeBSD from the kernel's table of mappings. The
  functions deliver one item per call and keep their position in static variables, which are
  the state here. What the kernel presents is an argument (\<open>procfs\<close>). Writing past a buffer
  is \<open>Crash BufferOverflow\<close>.
\<close>

section \<open>Linux\<close>

text \<open>
  \<open>None\<close> when \<open>fopen\<close>, \<open>readlink\<close> or \<open>opendir\<close> fails; \<open>exe_link\<close> is the target of the link and
  \<open>task_dir\<close> the names that \<open>readdir\<close> delivers.
\<close>

record procfs =
  maps_file :: "string option"
  exe_link :: "string option"
  task_dir :: "string list option"

record maps_state =
  filp :: "string option"
  exe_name :: string

definition no_maps :: maps_state where
  "no_maps = \<lparr>filp = None, exe_name = []\<rparr>"

type_synonym mapping = "string \<times> u64 \<times> u64 \<times> bool"

definition proc_maps_open :: "procfs \<Rightarrow> maps_state \<Rightarrow> maps_state run" where
  "proc_maps_open pf st =
     (if filp st = None then
        (case maps_file pf of
           None \<Rightarrow> Exit 3
         | Some content \<Rightarrow>
             (case exe_link pf of
                None \<Rightarrow> Exit 3
              | Some path \<Rightarrow>
                  let exe = take 1024 path
                  in if length exe < 1024 then Return \<lparr>filp = Some content, exe_name = exe\<rparr>
                     else Crash BufferOverflow))
      else Return st)"

definition maps_format :: "scan_dir list" where
  "maps_format =
     [ScanHex, ScanLit (CHR ''-''), ScanHex, ScanSpace, ScanStr, ScanSpace, ScanHex, ScanSpace, ScanHex,
      ScanLit (CHR '':''), ScanHex, ScanSpace, ScanDec, ScanSpace, ScanStr, ScanSpace, ScanStr]"

text \<open>The buffers \<open>perms[5]\<close>, \<open>ret_path[1024]\<close> and \<open>deleted[100]\<close>.\<close>

fun scan_fits :: "nat list \<Rightarrow> scan_val list \<Rightarrow> bool" where
  "scan_fits (sz # szs) (SStr s # vs) \<longleftrightarrow> length s < sz \<and> scan_fits szs vs"
| "scan_fits szs (SNum n # vs) \<longleftrightarrow> scan_fits szs vs"
| "scan_fits szs vs \<longleftrightarrow> True"

text \<open>The line's mapping, if it is executable and of a file: exactly eight values and an
  absolute path.\<close>

definition scan_mapping :: "string \<Rightarrow> scan_val list \<Rightarrow> mapping option" where
  "scan_mapping exe vs =
     (case vs of
        [SNum start, SNum end, SStr perms, SNum ia, SNum ib, SNum ic, SNum ino, SStr ret_path] \<Rightarrow>
          (if take 1 (drop 2 perms) = ''x'' \<and> take 1 ret_path = ''/''
           then Some (ret_path, ulong_of start, ulong_of end, ret_path = exe) else None)
      | _ \<Rightarrow> None)"

function proc_maps_walk :: "string \<Rightarrow> string \<Rightarrow> (mapping option \<times> string) run" where
  "proc_maps_walk exe content =
     (case fgets 1024 content of
        None \<Rightarrow> Return (None, content)
      | Some (line, rest) \<Rightarrow>
          let vs = sscanf line maps_format
          in if \<not> scan_fits [5, 1024, 100] vs then Crash BufferOverflow
             else case scan_mapping exe vs of
                    Some m \<Rightarrow> Return (Some m, rest)
                  | None \<Rightarrow> proc_maps_walk exe rest)"
  by pat_completeness auto
termination
  by (relation "measure (\<lambda>(exe, content). length content)") (auto dest: fgets_shorter)

declare proc_maps_walk.simps [simp del]

definition proc_maps :: "procfs \<Rightarrow> maps_state \<Rightarrow> (mapping option \<times> maps_state) run" where
  "proc_maps pf st =
     run_bind (proc_maps_open pf st) (\<lambda>st.
     run_bind (proc_maps_walk (exe_name st) (the (filp st))) (\<lambda>(r, rest).
       case r of
         Some m \<Rightarrow> Return (Some m, st\<lparr>filp := Some rest\<rparr>)
       | None \<Rightarrow> Return (None, st\<lparr>filp := None\<rparr>)))"

lemma proc_maps_walk_shorter:
  "proc_maps_walk exe content = Return (Some m, rest) \<Longrightarrow> length rest < length content"
proof (induction exe content rule: proc_maps_walk.induct)
  case (1 exe content)
  from 1(2) obtain line r where f: "fgets 1024 content = Some (line, r)"
    by (subst (asm) proc_maps_walk.simps) (auto split: option.splits)
  then have l: "length r < length content" by (rule fgets_shorter) simp
  show ?case
  proof (cases "scan_mapping exe (sscanf line maps_format)")
    case None
    then show ?thesis
      using 1(1) [OF f refl refl _ None] 1(2) f l proc_maps_walk.simps [of exe content]
      by (auto simp: Let_def split: if_splits)
  next
    case (Some a)
    then show ?thesis using 1(2) f l proc_maps_walk.simps [of exe content]
      by (auto simp: Let_def split: if_splits)
  qed
qed

text \<open>The loop \<open>while ((path = proc_maps(...)) != NULL)\<close> of the four builders.\<close>

definition maps_left :: "procfs \<Rightarrow> maps_state \<Rightarrow> nat" where
  "maps_left pf st = (case filp st of Some content \<Rightarrow> length content
     | None \<Rightarrow> Suc (case maps_file pf of None \<Rightarrow> 0 | Some content \<Rightarrow> length content))"

lemma proc_maps_left: "proc_maps pf st = Return (Some m, st') \<Longrightarrow> maps_left pf st' < maps_left pf st"
  by (fastforce simp: proc_maps_def proc_maps_open_def maps_left_def run_bind_Return Let_def
      split: if_splits option.splits dest: proc_maps_walk_shorter)

function proc_maps_each ::
  "procfs \<Rightarrow> (mapping \<Rightarrow> 'a \<Rightarrow> 'a run) \<Rightarrow> maps_state \<Rightarrow> 'a \<Rightarrow> ('a \<times> maps_state) run" where
  "proc_maps_each pf body st a =
     run_bind (proc_maps pf st) (\<lambda>(r, st).
       case r of
         None \<Rightarrow> Return (a, st)
       | Some m \<Rightarrow> run_bind (body m a) (proc_maps_each pf body st))"
  by pat_completeness auto
termination
  by (relation "measure (\<lambda>(pf, body, st, a). maps_left pf st)") (auto dest: proc_maps_left)

declare proc_maps_each.simps [simp del]

section \<open>The kernel's file of mappings\<close>

text \<open>
  A line of \<open>/proc/pid/maps\<close> as proc(5) documents it: addresses, permissions, offset, device,
  inode and, after blanks, the name of the file, which is followed by \<open>(deleted)\<close> when the file was
  removed. An anonymous mapping has no name.
\<close>

record vm_map =
  vm_start :: u64
  vm_end :: u64
  vm_perms :: string
  vm_offset :: nat
  vm_major :: nat
  vm_minor :: nat
  vm_inode :: nat
  vm_blanks :: nat
  vm_name :: string
  vm_deleted :: bool

definition maps_text :: "vm_map \<Rightarrow> string" where
  "maps_text m =
     print_hex 8 (unat (vm_start m)) @ CHR ''-'' # print_hex 8 (unat (vm_end m)) @ CHR '' '' # vm_perms m @
     CHR '' '' # print_hex 8 (vm_offset m) @ CHR '' '' # print_hex 2 (vm_major m) @ CHR '':'' #
     print_hex 2 (vm_minor m) @ CHR '' '' # print_base 10 (vm_inode m) @ CHR '' '' #
     replicate (vm_blanks m) (CHR '' '') @ vm_name m @ (if vm_deleted m then '' (deleted)'' else [])"

definition maps_line :: "vm_map \<Rightarrow> string" where
  "maps_line m = maps_text m @ [CHR 0x0A]"

text \<open>
  What the kernel guarantees of a line (four letters of permissions, a name that does not begin
  with a blank and has no newline, which the kernel escapes), and the three limits of the
  reader: the line fits in \<open>line[1024]\<close>, the name does not end in a blank, and when it contains
  one, its second word fits in \<open>deleted[100]\<close>.
\<close>

definition name_words :: "string \<Rightarrow> string \<times> string" where
  "name_words s =
     (takeWhile (Not \<circ> is_space) s, takeWhile (Not \<circ> is_space) (dropWhile is_space (dropWhile (Not \<circ> is_space) s)))"

definition has_blank :: "string \<Rightarrow> bool" where
  "has_blank s \<longleftrightarrow> list_ex is_space s"

definition vm_form :: "vm_map \<Rightarrow> bool" where
  "vm_form m \<longleftrightarrow> length (vm_perms m) = 4 \<and> (\<forall>c \<in> set (vm_perms m). \<not> is_space c) \<and>
     CHR 0x0A \<notin> set (vm_name m) \<and> (vm_name m \<noteq> [] \<longrightarrow> \<not> is_space (hd (vm_name m)) \<and> \<not> is_space (last (vm_name m))) \<and>
     (vm_deleted m \<longrightarrow> vm_name m \<noteq> []) \<and> length (maps_line m) < 1024"

definition vm_ok :: "vm_map \<Rightarrow> bool" where
  "vm_ok m \<longleftrightarrow> vm_form m \<and> length (snd (name_words (vm_name m))) < 100"

text \<open>The mappings the program gets: executable, of a file that still exists and has no blank in its name.\<close>

definition vm_wanted :: "vm_map \<Rightarrow> bool" where
  "vm_wanted m \<longleftrightarrow> vm_perms m ! 2 = CHR ''x'' \<and> take 1 (vm_name m) = ''/'' \<and> \<not> vm_deleted m \<and> \<not> has_blank (vm_name m)"

definition vm_mapping :: "string \<Rightarrow> vm_map \<Rightarrow> mapping" where
  "vm_mapping exe m = (vm_name m, vm_start m, vm_end m, vm_name m = exe)"

lemma is_space_simps [simp]:
  "is_space (CHR '' '')" "is_space (CHR 0x0A)" "\<not> is_space (CHR ''('')" "\<not> is_space (CHR '')'')"
  by (simp_all add: is_space_def)

lemma separators [simp]:
  "digit_of (CHR ''-'') = 99" "digit_of (CHR '' '') = 99" "digit_of (CHR '':'') = 99" "digit_of (CHR 0x0A) = 99"
  by (simp_all add: digit_of_def)

lemma dropWhile_blanks: "dropWhile is_space (replicate k (CHR '' '') @ s) = dropWhile is_space s"
  by (induction k) auto

lemma dropWhile_word: "w \<noteq> [] \<Longrightarrow> \<forall>c \<in> set w. \<not> is_space c \<Longrightarrow> dropWhile is_space (w @ s) = w @ s"
  by (cases w) auto

lemma dropWhile_hex: "dropWhile is_space (print_hex w n @ s) = print_hex w n @ s"
  by (rule dropWhile_word) (auto dest!: print_hex_digits digit_of_not_space [OF less_trans [of _ 16]])

lemma dropWhile_dec: "dropWhile is_space (print_base 10 n @ s) = print_base 10 n @ s"
  by (rule dropWhile_word) (auto dest!: print_base_digits [rotated 2] digit_of_not_space [OF less_trans [of _ 10]])

lemmas scan_rules = sscanf_hex sscanf_dec sscanf_str sscanf.simps(1-3) dropWhile_blanks dropWhile_word
  dropWhile_hex dropWhile_dec

text \<open>A name without a blank is one word; any other has a second one.\<close>

lemma no_blank: "\<not> has_blank s \<longleftrightarrow> (\<forall>c \<in> set s. \<not> is_space c)"
  by (auto simp: has_blank_def list_ex_iff)

lemma name_words_no_blank: "\<not> has_blank s \<Longrightarrow> name_words s = (s, [])"
proof -
  assume "\<not> has_blank s"
  then have "dropWhile (Not \<circ> is_space) s = []" by (simp add: no_blank dropWhile_eq_Nil_conv)
  then show "name_words s = (s, [])"
    using takeWhile_dropWhile_id [of "Not \<circ> is_space" s] by (simp add: name_words_def del: dropWhile_eq_Nil_conv)
qed

lemma name_words_blank:
  assumes "has_blank s" and "\<not> is_space (hd s)" and "\<not> is_space (last s)"
  obtains b bs r where "s = fst (name_words s) @ b # bs @ snd (name_words s) @ r"
    "is_space b" "\<forall>c \<in> set bs. is_space c" "r = [] \<or> is_space (hd r)"
    "fst (name_words s) \<noteq> []" "\<forall>c \<in> set (fst (name_words s)). \<not> is_space c"
    "snd (name_words s) \<noteq> []" "\<forall>c \<in> set (snd (name_words s)). \<not> is_space c"
proof -
  let ?P = "Not \<circ> is_space"
  obtain b t where t: "dropWhile ?P s = b # t"
    using assms(1) by (cases "dropWhile ?P s") (auto simp: has_blank_def list_ex_iff)
  have b: "is_space b" using t hd_dropWhile [of ?P s] by auto
  have st: "s = takeWhile ?P s @ b # t" using t takeWhile_dropWhile_id [of ?P s] by simp
  let ?u = "dropWhile is_space t"
  have "last s = last (b # t)" by (subst st) simp
  then have u: "?u \<noteq> []" using assms(3) b by (auto simp: dropWhile_eq_Nil_conv last_ConsR split: if_splits)
  then have hu: "\<not> is_space (hd ?u)" by (rule hd_dropWhile)
  have w: "name_words s = (takeWhile ?P s, takeWhile ?P ?u)" using b by (simp add: name_words_def t)
  have "s = takeWhile ?P s @ b # takeWhile is_space t @ takeWhile ?P ?u @ dropWhile ?P ?u"
    using st by simp
  moreover have "dropWhile ?P ?u = [] \<or> is_space (hd (dropWhile ?P ?u))" using hd_dropWhile [of ?P ?u] by auto
  moreover have "takeWhile ?P s \<noteq> []" using assms(1,2) by (cases s) (auto simp: has_blank_def)
  moreover have "takeWhile ?P ?u \<noteq> []" using u hu by (cases ?u) auto
  ultimately show ?thesis
    using b by (intro that [of b "takeWhile is_space t" "dropWhile ?P ?u"]) (auto simp: w dest: set_takeWhileD)
qed

lemma dropWhile_spaces: "\<forall>c \<in> set bs. is_space c \<Longrightarrow> dropWhile is_space (bs @ s) = dropWhile is_space s"
  by (simp add: dropWhile_append2)

lemma scan_two_words:
  assumes "has_blank s" and "\<not> is_space (hd s)" and "\<not> is_space (last s)" and "t \<noteq> []" and "is_space (hd t)"
  shows "sscanf (s @ t) [ScanSpace, ScanStr, ScanSpace, ScanStr] = [SStr (fst (name_words s)), SStr (snd (name_words s))]"
proof -
  obtain b bs r where w: "s = fst (name_words s) @ b # bs @ snd (name_words s) @ r" and sp: "is_space b"
    "\<forall>c \<in> set bs. is_space c" "r = [] \<or> is_space (hd r)" and w1: "fst (name_words s) \<noteq> []"
    "\<forall>c \<in> set (fst (name_words s)). \<not> is_space c"
    and w2: "snd (name_words s) \<noteq> []" "\<forall>c \<in> set (snd (name_words s)). \<not> is_space c"
    using name_words_blank [OF assms(1-3)] .
  obtain c q where q: "r @ t = c # q" "is_space c" using sp(3) assms(4,5) by (cases r; cases t) auto
  have "s @ t = fst (name_words s) @ b # bs @ snd (name_words s) @ c # q"
    using q(1) by (subst w) simp
  then show ?thesis
    using sp(1,2) w1 w2 q(2) by (simp add: scan_rules dropWhile_spaces del: sscanf.simps(6))
qed

text \<open>Scanning a line gives back its fields, the name by its first two words.\<close>

lemma scan_maps_line:
  assumes "vm_form m"
  shows "sscanf (maps_line m) maps_format =
    [SNum (uint (vm_start m)), SNum (uint (vm_end m)), SStr (vm_perms m), SNum (int (vm_offset m)),
     SNum (int (vm_major m)), SNum (int (vm_minor m)), SNum (int (vm_inode m))] @
    (if vm_name m = [] then []
     else if has_blank (vm_name m) then [SStr (fst (name_words (vm_name m))), SStr (snd (name_words (vm_name m)))]
     else SStr (vm_name m) # (if vm_deleted m then [SStr ''(deleted)''] else []))"
proof -
  note ok = assms [unfolded vm_form_def]
  have p: "vm_perms m \<noteq> []" using ok by auto
  let ?d = "[ScanSpace, ScanStr, ScanSpace, ScanStr]"
  let ?t = "(if vm_deleted m then '' (deleted)'' else []) @ [CHR 0x0A]"
  have "sscanf (maps_line m) maps_format =
    [SNum (uint (vm_start m)), SNum (uint (vm_end m)), SStr (vm_perms m), SNum (int (vm_offset m)),
     SNum (int (vm_major m)), SNum (int (vm_minor m)), SNum (int (vm_inode m))] @ sscanf (vm_name m @ ?t) ?d"
    using ok p by (simp add: maps_line_def maps_text_def maps_format_def scan_rules del: sscanf.simps(4-6))
  moreover have "sscanf (vm_name m @ ?t) ?d = []" if "vm_name m = []"
    using that ok by simp
  moreover have "sscanf (vm_name m @ ?t) ?d = SStr (vm_name m) # (if vm_deleted m then [SStr ''(deleted)''] else [])"
    if "vm_name m \<noteq> []" "\<not> has_blank (vm_name m)"
  proof -
    have "sscanf (''(deleted)'' @ CHR 0x0A # []) [ScanStr] = [SStr ''(deleted)'']"
      by (subst sscanf_str) (simp_all add: is_space_def)
    moreover have "sscanf [] [ScanStr] = []" by simp
    ultimately show ?thesis using that by (simp add: scan_rules no_blank del: sscanf.simps(6))
  qed
  ultimately show ?thesis using scan_two_words [of "vm_name m" ?t] ok by auto
qed

lemma name_words_fst_le: "length (fst (name_words s)) \<le> length s"
  by (simp add: name_words_def length_takeWhile_le)

lemma scan_maps_line_fits: "vm_ok m \<Longrightarrow> scan_fits [5, 1024, 100] (sscanf (maps_line m) maps_format)"
  using name_words_fst_le [of "vm_name m"]
  by (simp add: scan_maps_line vm_ok_def, simp add: vm_form_def maps_line_def maps_text_def)

lemma scan_mapping_maps_line:
  assumes "vm_ok m"
  shows "scan_mapping exe (sscanf (maps_line m) maps_format) =
     (if vm_wanted m then Some (vm_mapping exe m) else None)"
proof -
  have form: "vm_form m" using assms by (simp add: vm_ok_def)
  then obtain a b c d where "vm_perms m = [a, b, c, d]"
    by (auto simp: vm_form_def length_Suc_conv eval_nat_numeral)
  then show ?thesis
    by (auto simp: scan_maps_line [OF form] scan_mapping_def vm_wanted_def vm_mapping_def)
qed

lemma fgets_maps_line: "vm_form m \<Longrightarrow> fgets 1024 (maps_line m @ s) = Some (maps_line m, s)"
proof -
  assume ok: "vm_form m"
  have "digit_of (CHR 0x0A) = 99" by simp
  then have "CHR 0x0A \<notin> set (print_hex w n)" "CHR 0x0A \<notin> set (print_base 10 n)" for w n
    using print_hex_digits [of "CHR 0x0A" w n] print_base_digits [of 10 "CHR 0x0A" n] by auto
  moreover have "CHR 0x0A \<notin> set (vm_perms m)" "CHR 0x0A \<notin> set (vm_name m)"
    using ok by (auto simp: vm_form_def)
  ultimately have "CHR 0x0A \<notin> set (maps_text m)" by (simp add: maps_text_def)
  then show "fgets 1024 (maps_line m @ s) = Some (maps_line m, s)"
    using fgets_newline [of "maps_text m" 1024 s] ok by (simp add: maps_line_def vm_form_def)
qed

text \<open>One call delivers the next wanted mapping.\<close>

lemma proc_maps_walk_lines:
  assumes "\<forall>m \<in> set ms. vm_ok m"
  shows "proc_maps_walk exe (concat (map maps_line ms)) =
    (case dropWhile (\<lambda>m. \<not> vm_wanted m) ms of
       [] \<Rightarrow> Return (None, [])
     | m # ms' \<Rightarrow> Return (Some (vm_mapping exe m), concat (map maps_line ms')))"
  using assms
proof (induction ms)
  case Nil
  show ?case by (subst proc_maps_walk.simps) (simp add: fgets_def)
next
  case (Cons m ms)
  then have ok: "vm_ok m" and form: "vm_form m" by (simp_all add: vm_ok_def)
  show ?case
    using Cons by (subst proc_maps_walk.simps)
      (simp add: fgets_maps_line [OF form] scan_maps_line_fits [OF ok] scan_mapping_maps_line [OF ok] Let_def)
qed

lemma proc_maps_each_lines:
  assumes "\<forall>m \<in> set ms. vm_ok m"
  shows "proc_maps_each pf body \<lparr>filp = Some (concat (map maps_line ms)), exe_name = exe\<rparr> a =
    run_bind (run_fold body (map (vm_mapping exe) (filter vm_wanted ms)) a)
      (\<lambda>a. Return (a, \<lparr>filp = None, exe_name = exe\<rparr>))"
  using assms
proof (induction "length ms" arbitrary: ms a rule: less_induct)
  case less
  let ?st = "\<lambda>ms. \<lparr>filp = Some (concat (map maps_line ms)), exe_name = exe\<rparr>"
  have filter_drop: "filter vm_wanted ms = filter vm_wanted (dropWhile (\<lambda>m. \<not> vm_wanted m) ms)"
    by (induction ms) auto
  show ?case
  proof (cases "dropWhile (\<lambda>m. \<not> vm_wanted m) ms")
    case Nil
    have "proc_maps pf (?st ms) = Return (None, \<lparr>filp = None, exe_name = exe\<rparr>)"
      using proc_maps_walk_lines [OF less(2), of exe, unfolded Nil] by (simp add: proc_maps_def proc_maps_open_def)
    then show ?thesis by (subst proc_maps_each.simps) (simp add: filter_drop Nil)
  next
    case (Cons m ms')
    then have "proc_maps pf (?st ms) = Return (Some (vm_mapping exe m), ?st ms')"
      by (simp add: proc_maps_def proc_maps_open_def proc_maps_walk_lines [OF less(2)])
    moreover have l: "length ms' < length ms"
      using Cons length_dropWhile_le [of "\<lambda>m. \<not> vm_wanted m" ms] by simp
    moreover have o: "\<forall>m \<in> set ms'. vm_ok m"
      using Cons less(2) set_dropWhileD [of _ "\<lambda>m. \<not> vm_wanted m" ms] by (metis list.set_intros(2))
    moreover have "vm_wanted m" using Cons by (metis dropWhile_eq_Cons_conv)
    moreover have "proc_maps_each pf body (?st ms') =
        (\<lambda>a. run_bind (run_fold body (map (vm_mapping exe) (filter vm_wanted ms')) a)
          (\<lambda>a. Return (a, \<lparr>filp = None, exe_name = exe\<rparr>)))"
      by (rule ext) (rule less(1) [OF l o])
    ultimately show ?thesis using Cons
      by (subst proc_maps_each.simps) (simp add: filter_drop run_bind_assoc)
  qed
qed

lemma proc_maps_each_file:
  assumes "maps_file pf = Some (concat (map maps_line ms))" and "\<forall>m \<in> set ms. vm_ok m"
    and "exe_link pf = Some exe" and "length exe < 1024" and "filp st = None"
  shows "proc_maps_each pf body st a =
    run_bind (run_fold body (map (vm_mapping exe) (filter vm_wanted ms)) a)
      (\<lambda>a. Return (a, \<lparr>filp = None, exe_name = exe\<rparr>))"
proof -
  have "proc_maps pf st = proc_maps pf \<lparr>filp = Some (concat (map maps_line ms)), exe_name = exe\<rparr>"
    using assms by (simp add: proc_maps_def proc_maps_open_def)
  then show ?thesis
    using proc_maps_each_lines [OF assms(2), of pf body exe a]
    by (subst proc_maps_each.simps) (subst (asm) proc_maps_each.simps, simp)
qed

text \<open>The mappings that a program with the file of mappings \<open>ms\<close> gives to the builders.\<close>

definition good_procfs :: "procfs \<Rightarrow> vm_map list \<Rightarrow> string \<Rightarrow> bool" where
  "good_procfs pf ms exe \<longleftrightarrow> maps_file pf = Some (concat (map maps_line ms)) \<and> exe_link pf = Some exe \<and> length exe < 1018 \<and>
     (\<forall>m \<in> set ms. vm_ok m \<and> length (vm_name m) < 1018)"

lemma proc_maps_each_good:
  assumes "good_procfs pf ms exe" and "filp st = None"
  shows "proc_maps_each pf body st a =
    run_bind (run_fold body (map (vm_mapping exe) (filter vm_wanted ms)) a)
      (\<lambda>a. Return (a, \<lparr>filp = None, exe_name = exe\<rparr>))"
  using assms by (intro proc_maps_each_file) (auto simp: good_procfs_def)

text \<open>C23 (proc_maps_complete): on a file of mappings whose lines fit in 1023 characters and whose names do
  not end in a blank and have a second word of at most 99 characters, if any, and with a link to
  the program of at most 1023 characters, the loop over \<open>proc_maps\<close> runs its body exactly for
  the executable mappings of existing files with no blank in their names, in their order, with
  their names, bounds and whether they are the program itself. Mappings of files with a blank in
  their names are passed over. The file is closed at the end, so that the next loop sees it from
  its start, and \<open>exe_name\<close> holds the target of the link.\<close>

theorem proc_maps_complete:
  assumes "maps_file pf = Some (concat (map maps_line ms))" and "\<forall>m \<in> set ms. vm_ok m"
    and "exe_link pf = Some exe" and "length exe < 1024" and "filp st = None"
  shows "proc_maps_each pf body st a =
    run_bind (run_fold body (map (vm_mapping exe) (filter vm_wanted ms)) a)
      (\<lambda>a. Return (a, \<lparr>filp = None, exe_name = exe\<rparr>))"
  by (rule proc_maps_each_file [OF assms])

definition demo_maps :: "vm_map list" where
  "demo_maps =
    [\<lparr>vm_start = 0x400000, vm_end = 0x401000, vm_perms = ''r-xp'', vm_offset = 0, vm_major = 8, vm_minor = 1,
      vm_inode = 77, vm_blanks = 3, vm_name = ''/bin/a'', vm_deleted = False\<rparr>,
     \<lparr>vm_start = 0x500000, vm_end = 0x501000, vm_perms = ''rw-p'', vm_offset = 0, vm_major = 0, vm_minor = 0,
      vm_inode = 0, vm_blanks = 0, vm_name = [], vm_deleted = False\<rparr>,
     \<lparr>vm_start = 0x600000, vm_end = 0x602000, vm_perms = ''r-xp'', vm_offset = 0, vm_major = 8, vm_minor = 1,
      vm_inode = 5, vm_blanks = 1, vm_name = ''/lib/c.so'', vm_deleted = False\<rparr>,
     \<lparr>vm_start = 0x700000, vm_end = 0x701000, vm_perms = ''r-xp'', vm_offset = 0, vm_major = 8, vm_minor = 1,
      vm_inode = 6, vm_blanks = 1, vm_name = ''/my lib'', vm_deleted = False\<rparr>]"

lemma demo_maps_ok: "\<forall>m \<in> set demo_maps. vm_ok m"
  by (simp add: demo_maps_def)
    (simp add: vm_ok_def vm_form_def name_words_def maps_line_def maps_text_def print_hex_def print_base.simps is_space_def)

lemma demo_wanted: "filter vm_wanted demo_maps = [demo_maps ! 0, demo_maps ! 2]"
  by (simp add: demo_maps_def vm_wanted_def has_blank_def is_space_def)

lemma demo_procfs: "good_procfs \<lparr>maps_file = Some (concat (map maps_line demo_maps)), exe_link = Some ''/bin/a'', task_dir = None\<rparr>
    demo_maps ''/bin/a''"
  using demo_maps_ok by (simp add: good_procfs_def) (simp add: demo_maps_def)

theorem proc_maps_complete_witness:
  "proc_maps_each \<lparr>maps_file = Some (concat (map maps_line demo_maps)), exe_link = Some ''/bin/a'', task_dir = None\<rparr>
      (\<lambda>m ms. Return (ms @ [m])) no_maps [] =
     Return ([(''/bin/a'', 0x400000, 0x401000, True), (''/lib/c.so'', 0x600000, 0x602000, False)],
       \<lparr>filp = None, exe_name = ''/bin/a''\<rparr>)"
  by (subst proc_maps_complete [OF _ demo_maps_ok, where exe = "''/bin/a''"])
    (simp_all add: demo_wanted, simp_all add: no_maps_def demo_maps_def vm_mapping_def)

section \<open>Threads\<close>

fun proc_tasks_walk :: "string list \<Rightarrow> pid \<times> string list" where
  "proc_tasks_walk [] = (0, [])"
| "proc_tasks_walk (e # es) = (let task_id = atoi e in if task_id \<noteq> 0 then (task_id, es) else proc_tasks_walk es)"

text \<open>The state is the open directory: the entries still to come.\<close>

definition proc_tasks :: "procfs \<Rightarrow> string list option \<Rightarrow> (pid \<times> string list option) run" where
  "proc_tasks pf dirp =
     (case (if dirp = None then task_dir pf else dirp) of
        None \<Rightarrow> Exit 3
      | Some es \<Rightarrow>
          (case proc_tasks_walk es of (task_id, rest) \<Rightarrow>
             Return (task_id, if task_id \<noteq> 0 then Some rest else None)))"

fun proc_task_walk :: "string list \<Rightarrow> pid \<Rightarrow> bool" where
  "proc_task_walk [] child = False"
| "proc_task_walk (e # es) child = (if atoi e = child then True else proc_task_walk es child)"

definition proc_task_check :: "procfs \<Rightarrow> pid \<Rightarrow> bool run" where
  "proc_task_check pf child =
     (case task_dir pf of None \<Rightarrow> Exit 3 | Some es \<Rightarrow> Return (proc_task_walk es child))"

text \<open>The results of \<open>n\<close> calls in sequence.\<close>

fun proc_tasks_calls :: "nat \<Rightarrow> procfs \<Rightarrow> string list option \<Rightarrow> (pid list \<times> string list option) run" where
  "proc_tasks_calls 0 pf dirp = Return ([], dirp)"
| "proc_tasks_calls (Suc n) pf dirp =
     run_bind (proc_tasks pf dirp) (\<lambda>(task_id, dirp).
     run_bind (proc_tasks_calls n pf dirp) (\<lambda>(ts, dirp). Return (task_id # ts, dirp)))"

lemma atoi_print:
  assumes "n < 2 ^ 31"
  shows "atoi (print_base 10 n) = int n"
proof -
  let ?s = "print_base 10 n"
  have dg: "digit_of c < 10" if "c \<in> set ?s" for c by (rule print_base_digits [OF _ _ that]) simp_all
  have digit: "is_digit c" "of_char c - 48 = int (digit_of c)" if "digit_of c < 10" for c
    using that by (auto simp: digit_of_def is_digit_def Let_def of_nat_diff of_nat_of_char split: if_splits)
  have all: "takeWhile is_digit ?s = ?s" using dg digit by (simp add: takeWhile_eq_all_conv)
  have val: "fold (\<lambda>c v. 10 * v + (of_char c - 48)) ds (int v) = int (foldl (\<lambda>v c. v * 10 + digit_of c) v ds)"
    if "\<forall>c \<in> set ds. digit_of c < 10" for ds v
    using that
  proof (induction ds arbitrary: v)
    case (Cons c ds)
    have "10 * int v + (of_char c - 48) = int (v * 10 + digit_of c)" using Cons.prems digit(2) [of c] by simp
    then show ?case using Cons.IH [of "v * 10 + digit_of c"] Cons.prems by (simp only: fold_Cons comp_apply foldl_Cons) simp
  qed simp
  have v: "digits_value ?s = int n"
    using val [of ?s 0] dg base_value_print_base [of 10 n] by (simp add: digits_value_def base_value_def all)
  obtain c cs where s: "?s = c # cs" by (cases ?s) auto
  have "digit_of c < 10" using dg [of c] by (simp add: s)
  then have "\<not> is_space c" "c \<noteq> CHR ''-''" "c \<noteq> CHR ''+''"
    using digit_of_not_space [of c] by (auto simp: digit_of_def)
  then have "atoi ?s = sint (int_of_long (saturate_long (int n)))"
    using v by (simp add: atoi_def s Let_def)
  also have "saturate_long (int n) = int n" using assms by (simp add: saturate_long_def)
  finally show ?thesis using assms by (simp add: sint_int_of_long)
qed

text \<open>The directory \<open>/proc/pid/task\<close>: the two entries of every directory and one for each thread.\<close>

definition task_names :: "nat list \<Rightarrow> string list" where
  "task_names tids = [''.'', ''..''] @ map (print_base 10) tids"

lemma proc_tasks_calls_ids:
  assumes "\<forall>n \<in> set tids. 0 < n \<and> n < 2 ^ 31"
  shows "proc_tasks_calls (Suc (length tids)) pf (Some (map (print_base 10) tids)) = Return (map int tids @ [0], None)"
  using assms by (induction tids) (simp_all add: proc_tasks_def atoi_print Let_def)

lemma proc_task_walk_ids:
  assumes "\<forall>n \<in> set tids. 0 < n \<and> n < 2 ^ 31"
  shows "proc_task_walk (map (print_base 10) tids) child \<longleftrightarrow> child \<in> int ` set tids"
  using assms by (induction tids) (auto simp: atoi_print)

lemma proc_tasks_calls_dir:
  assumes "task_dir pf = Some (task_names tids)" and "\<forall>n \<in> set tids. 0 < n \<and> n < 2 ^ 31"
  shows "proc_tasks_calls (Suc (length tids)) pf None = Return (map int tids @ [0], None) \<and>
    (\<forall>child. child \<noteq> 0 \<longrightarrow> proc_task_check pf child = Return (child \<in> int ` set tids))"
proof -
  have "proc_tasks pf None = proc_tasks pf (Some (map (print_base 10) tids))"
    using assms(1) by (simp add: proc_tasks_def task_names_def atoi_dots Let_def)
  then have "proc_tasks_calls (Suc (length tids)) pf None =
      proc_tasks_calls (Suc (length tids)) pf (Some (map (print_base 10) tids))" by simp
  moreover have "proc_task_check pf child = Return (child \<in> int ` set tids)" if "child \<noteq> 0" for child
    using that assms(1) proc_task_walk_ids [OF assms(2)] by (simp add: proc_task_check_def task_names_def atoi_dots)
  ultimately show ?thesis using proc_tasks_calls_ids [OF assms(2)] by simp
qed

text \<open>C24 (proc_tasks_complete): the calls of \<open>proc_tasks\<close> deliver the ids of all threads of the process,
  each once, in the order of the directory, then 0, and the next call starts again;
  \<open>proc_task_check\<close> tells of every non-zero id whether it is one of them.\<close>

theorem proc_tasks_complete:
  assumes "task_dir pf = Some (task_names tids)" and "\<forall>n \<in> set tids. 0 < n \<and> n < 2 ^ 31"
  shows "proc_tasks_calls (Suc (length tids)) pf None = Return (map int tids @ [0], None) \<and>
    (\<forall>child. child \<noteq> 0 \<longrightarrow> proc_task_check pf child = Return (child \<in> int ` set tids))"
  by (rule proc_tasks_calls_dir [OF assms])

theorem proc_tasks_complete_witness:
  "proc_tasks_calls 3 \<lparr>maps_file = None, exe_link = None, task_dir = Some (task_names [71, 72])\<rparr> None = Return ([71, 72, 0], None) \<and>
   proc_task_check \<lparr>maps_file = None, exe_link = None, task_dir = Some (task_names [71, 72])\<rparr> 72 = Return True"
  using proc_tasks_complete [of "\<lparr>maps_file = None, exe_link = None, task_dir = Some (task_names [71, 72])\<rparr>" "[71, 72]"]
  by (simp add: numeral_3_eq_3)

section \<open>Boundary behaviour\<close>

text \<open>An executable mapping of a file with a blank in its name is passed over; when the second word of the
  name has 100 characters or more, \<open>sscanf\<close> writes past \<open>deleted\<close>.\<close>

lemma maps_name_with_blank:
  assumes "vm_ok m" and "has_blank (vm_name m)"
  shows "scan_mapping exe (sscanf (maps_line m) maps_format) = None"
  using assms by (simp add: scan_mapping_maps_line vm_wanted_def)

lemma deleted_overflow:
  assumes "vm_form m" and "has_blank (vm_name m)" and "100 \<le> length (snd (name_words (vm_name m)))"
  shows "proc_maps_walk exe (maps_line m @ s) = Crash BufferOverflow"
proof -
  have "\<not> scan_fits [5, 1024, 100] (sscanf (maps_line m) maps_format)"
    using assms(2,3) by (auto simp: scan_maps_line [OF assms(1)] has_blank_def)
  then show ?thesis by (subst proc_maps_walk.simps) (simp add: fgets_maps_line [OF assms(1)] Let_def)
qed

text \<open>A blank at the end of a name is lost: the file is looked up under another name.\<close>

lemma maps_name_blank_at_end:
  "scan_mapping exe (sscanf (''400000-401000 r-xp 0 08:01 7 /a '' @ [CHR 0x0A]) maps_format) = Some (''/a'', 0x400000, 0x401000, ''/a'' = exe)"
  by (simp add: maps_format_def scan_mapping_def scan_int_def scan_sign_def is_space_def digit_of_def ulong_of_def base_value_def)

text \<open>A link of 1024 characters or more makes the terminating zero land behind \<open>exe_name\<close>.\<close>

lemma exe_name_overflow:
  assumes "filp st = None" and "maps_file pf = Some content" and "exe_link pf = Some path" and "1024 \<le> length path"
  shows "proc_maps pf st = Crash BufferOverflow"
  using assms by (simp add: proc_maps_def proc_maps_open_def)

section \<open>FreeBSD\<close>

record kinfo_vmentry =
  kve_start :: u64
  kve_end :: u64
  kve_protection :: u32
  kve_path :: string

record fbsd_state =
  freep :: "kinfo_vmentry list option"
  vm_i :: nat
  ki_comm :: string

definition KVME_PROT_EXEC :: u32 where
  "KVME_PROT_EXEC = 4"

definition kve_wanted :: "kinfo_vmentry \<Rightarrow> bool" where
  "kve_wanted kve \<longleftrightarrow> kve_protection kve AND KVME_PROT_EXEC \<noteq> 0 \<and> take 1 (kve_path kve) = ''/''"

definition kve_mapping :: "string \<Rightarrow> kinfo_vmentry \<Rightarrow> mapping" where
  "kve_mapping exe kve = (kve_path kve, kve_start kve, kve_end kve,
     exe = drop (the (strchr_last (kve_path kve) (CHR ''/'')) + 1) (kve_path kve))"

function proc_maps_fbsd_walk :: "kinfo_vmentry list \<Rightarrow> nat \<Rightarrow> kinfo_vmentry option \<times> nat" where
  "proc_maps_fbsd_walk vs i =
     (if i < length vs then
        let kve = vs ! i in if kve_wanted kve then (Some kve, i + 1) else proc_maps_fbsd_walk vs (i + 1)
      else (None, i))"
  by pat_completeness auto
termination
  by (relation "measure (\<lambda>(vs, i). length vs - i)") auto

declare proc_maps_fbsd_walk.simps [simp del]

text \<open>\<open>ki\<close> is the process with its name and its table of mappings, \<open>None\<close> when there is none.\<close>

definition proc_maps_fbsd ::
  "(string \<times> kinfo_vmentry list) option \<Rightarrow> fbsd_state \<Rightarrow> (mapping option \<times> fbsd_state) run" where
  "proc_maps_fbsd ki st =
     run_bind (if freep st = None then
          (case ki of None \<Rightarrow> Exit 6
           | Some (comm, vs) \<Rightarrow> Return (st\<lparr>freep := Some vs, ki_comm := comm\<rparr>))
        else Return st) (\<lambda>st.
       case proc_maps_fbsd_walk (the (freep st)) (vm_i st) of
         (Some kve, i) \<Rightarrow> Return (Some (kve_mapping (ki_comm st) kve), st\<lparr>vm_i := i\<rparr>)
       | (None, i) \<Rightarrow> Return (None, st\<lparr>freep := None, vm_i := 0\<rparr>))"

lemma proc_maps_fbsd_walk_next:
  "proc_maps_fbsd_walk vs i =
     (case dropWhile (\<lambda>kve. \<not> kve_wanted kve) (drop i vs) of
        [] \<Rightarrow> (None, max i (length vs))
      | kve # rest \<Rightarrow> (Some kve, length vs - length rest))"
proof (induction vs i rule: proc_maps_fbsd_walk.induct)
  case (1 vs i)
  show ?case
  proof (cases "i < length vs")
    case True
    then have "drop i vs = vs ! i # drop (i + 1) vs" by (simp add: Cons_nth_drop_Suc)
    with True 1 [OF True refl] show ?thesis by (subst proc_maps_fbsd_walk.simps) (auto simp: Let_def split: list.split simp del: dropWhile_eq_Nil_conv)
  next
    case False
    then show ?thesis by (subst proc_maps_fbsd_walk.simps) simp
  qed
qed

text \<open>A call delivers the next wanted mapping; after the last one the state is the initial one again.\<close>

lemma proc_maps_fbsd_next:
  assumes "freep st = Some vs"
  shows "proc_maps_fbsd ki st =
    Return (case dropWhile (\<lambda>kve. \<not> kve_wanted kve) (drop (vm_i st) vs) of
        [] \<Rightarrow> (None, st\<lparr>freep := None, vm_i := 0\<rparr>)
      | kve # rest \<Rightarrow> (Some (kve_mapping (ki_comm st) kve), st\<lparr>vm_i := length vs - length rest\<rparr>))"
  using assms by (simp add: proc_maps_fbsd_def proc_maps_fbsd_walk_next split: list.split
      del: dropWhile_eq_Nil_conv)

end
