(* ===== verification/Monitor.thy ===== *)
theory Monitor
  imports Break_Point Mem_Expiry C_Text Proc_Info
begin

text \<open>
  \<open>src/memleax.c\<close> on Linux/x86-64: the options, the attachment to the target, the
  monitoring loop and its end. One iteration of the loop is \<open>main_step\<close>, a function of the
  state and of what the iteration takes from outside (\<open>event\<close>): the result of \<open>waitpid\<close>,
  the directory that \<open>proc_task_check\<close> reads, what the local variable \<open>regs\<close> holds at first,
  the result of \<open>time\<close> and what the handler takes. Requests to the target have an effect
  only on stopped threads (\<open>Target_Memory\<close>); that \<open>waitpid\<close> reports a stop says that the thread is stopped.
\<close>

section \<open>Options\<close>

record opts =
  memory_expire :: int
  memblock_limit :: int
  callstack_limit :: int
  opt_backtrace_limit :: int
  opt_debug_info_file :: "string option"

definition default_opts :: opts where
  "default_opts = \<lparr>memory_expire = 10, memblock_limit = 1000, callstack_limit = 1000,
     opt_backtrace_limit = int BACKTRACE_MAX, opt_debug_info_file = None\<rparr>"

text \<open>One option that \<open>getopt\<close> delivers: the letter (\<open>?\<close> for an unknown one) and the argument.\<close>

definition parse_opt :: "char \<Rightarrow> string \<Rightarrow> opts \<Rightarrow> opts run" where
  "parse_opt ch optarg og =
     (if ch = CHR ''e'' then
        (let v = atoi optarg in if v = 0 then Exit 1 else Return (og\<lparr>memory_expire := v\<rparr>))
      else if ch = CHR ''d'' then Return (og\<lparr>opt_debug_info_file := Some optarg\<rparr>)
      else if ch = CHR ''l'' then
        (let v = atoi optarg in if v = 0 then Exit 1
           else if v > int BACKTRACE_MAX then Exit 1 else Return (og\<lparr>opt_backtrace_limit := v\<rparr>))
      else if ch = CHR ''m'' then
        (let v = atoi optarg in if v = 0 then Exit 1 else Return (og\<lparr>memblock_limit := v\<rparr>))
      else if ch = CHR ''c'' then
        (let v = atoi optarg in if v = 0 then Exit 1 else Return (og\<lparr>callstack_limit := v\<rparr>))
      else if ch = CHR ''h'' then Exit 0
      else if ch = CHR ''v'' then Exit 0
      else Exit 1)"

fun parse_loop :: "(char \<times> string) list \<Rightarrow> opts \<Rightarrow> opts run" where
  "parse_loop [] og = Return og"
| "parse_loop ((ch, optarg) # cs) og = run_bind (parse_opt ch optarg og) (parse_loop cs)"

definition parse_args :: "(char \<times> string) list \<Rightarrow> string list \<Rightarrow> (opts \<times> pid) run" where
  "parse_args cs rest =
     run_bind (parse_loop cs default_opts) (\<lambda>og.
       if length rest \<noteq> 1 then Exit 1
       else let p = atoi (hd rest) in if p = 0 then Exit 2 else Return (og, p))"

section \<open>State of the loop\<close>

record mon =
  tgt :: target64
  g_breakpoints :: "breakpoint_s list"
  trkr :: trk
  cur_bp :: "nat option"
  return_address :: u64
  return_code :: u64
  arg1 :: u64
  arg2 :: u64
  last_thread :: pid
  hold_threads :: "pid list"
  g_signo :: int
  g_target_pid :: pid
  mopts :: opts
  begin_time :: int
  alarms :: "int list"

record event =
  ev_pid :: pid
  ev_eintr :: bool
  ev_status :: u32
  ev_proc :: procfs
  ev_regs :: x86_64_regs
  ev_he :: henv
  ev_now :: int

definition SIGHUP :: int where "SIGHUP = 1"

definition SIGINT :: int where "SIGINT = 2"

definition SIGTRAP :: int where "SIGTRAP = 5"

definition SIGALRM :: int where "SIGALRM = 14"

definition SIGTERM :: int where "SIGTERM = 15"

definition SIGSTOP :: int where "SIGSTOP = 19"

definition WIFSTOPPED :: "u32 \<Rightarrow> bool" where
  "WIFSTOPPED status \<longleftrightarrow> status AND 0xff = 0x7f"

definition WSTOPSIG :: "u32 \<Rightarrow> int" where
  "WSTOPSIG status = uint (drop_bit 8 (status AND 0xff00))"

definition HOLD_MAX :: nat where
  "HOLD_MAX = 1000"

definition signal_handler :: "int \<Rightarrow> mon \<Rightarrow> mon" where
  "signal_handler signo m = m\<lparr>g_signo := signo, tgt := (tgt m)\<lparr>tlog := tlog (tgt m) @ [Kill (g_target_pid m) SIGSTOP]\<rparr>\<rparr>"

section \<open>One iteration\<close>

text \<open>The result of an iteration: whether the loop goes on, and the state.\<close>

definition main_expire :: "event \<Rightarrow> mon \<Rightarrow> (bool \<times> mon) run" where
  "main_expire ev m =
     run_bind (memblock_expire (ev_now ev) (memory_expire (mopts m)) (memblock_limit (mopts m))
         (callstack_limit (mopts m)) (trkr m)) (\<lambda>(nxt, st).
       let m = m\<lparr>trkr := st\<rparr>
       in if nxt < 0 then Return (False, m)
          else Return (True, m\<lparr>alarms := alarms m @ [nxt], tgt := ptrace_continue (ev_pid ev) 0 (tgt m)\<rparr>))"

text \<open>Wake up one held thread.\<close>

definition wake_one :: "mon \<Rightarrow> mon" where
  "wake_one m =
     (if hold_threads m \<noteq> [] then
        m\<lparr>tgt := ptrace_continue (last (hold_threads m)) 0 (tgt m), hold_threads := butlast (hold_threads m)\<rparr>
      else m)"

text \<open>At the return of an API function.\<close>

definition main_return :: "event \<Rightarrow> x86_64_regs \<Rightarrow> mon \<Rightarrow> (bool \<times> mon) run" where
  "main_return ev regs m =
     (case cur_bp m of
        None \<Rightarrow> Crash NullDeref
      | Some i \<Rightarrow>
          let bp = g_breakpoints m ! i;
              m = m\<lparr>return_address := 0\<rparr>;
              he = (ev_he ev)\<lparr>he_ce := (he_ce (ev_he ev))\<lparr>ce_entry := entry_address bp\<rparr>\<rparr>
          in run_bind (call_handler (handler bp) he (call_return_value_x86_64 regs) (arg1 m) (arg2 m) (trkr m))
               (\<lambda>(r, st).
                 let m = m\<lparr>trkr := st\<rparr>
                 in if r \<noteq> 0 then Return (False, m) else main_expire ev (wake_one m)))"

text \<open>At the entry of the API function of breakpoint \<open>i\<close>.\<close>

definition main_entry :: "event \<Rightarrow> x86_64_regs \<Rightarrow> nat \<Rightarrow> mon \<Rightarrow> (bool \<times> mon) run" where
  "main_entry ev regs i m =
     (let p = ev_pid ev;
          bp = g_breakpoints m ! i;
          t = ptrace_set_data p (entry_address bp) (entry_code bp) (tgt m);
          ra = call_return_address_x86_64 p regs t;
          code = ptrace_get_data p ra t;
          t = set_breakpoint_x86_64 p ra code t
      in main_expire ev
           (m\<lparr>tgt := t, cur_bp := Some i, return_address := ra, return_code := code,
              arg1 := call_arg1_x86_64 regs, arg2 := call_arg2_x86_64 regs, last_thread := p\<rparr>))"

text \<open>Leave the call in progress, if there is one: recover the code at the return address and
  set the entry breakpoint again.\<close>

definition main_leave :: "pid \<Rightarrow> mon \<Rightarrow> mon run" where
  "main_leave p m =
     (if return_address m \<noteq> 0 then
        let t = ptrace_set_data p (return_address m) (return_code m) (tgt m)
        in case cur_bp m of
             None \<Rightarrow> Crash NullDeref
           | Some i \<Rightarrow>
               let bp = g_breakpoints m ! i
               in Return (m\<lparr>tgt := set_breakpoint_x86_64 p (entry_address bp) (entry_code bp) t\<rparr>)
      else Return m)"

text \<open>Act on the address the thread stopped at.\<close>

definition main_dispatch :: "event \<Rightarrow> u64 \<Rightarrow> x86_64_regs \<Rightarrow> mon \<Rightarrow> (bool \<times> mon) run" where
  "main_dispatch ev stop regs m =
     (if stop = return_address m then main_return ev regs m
      else
        (case breakpoint_by_entry stop (g_breakpoints m) of
           Some i \<Rightarrow> main_entry ev regs i m
         | None \<Rightarrow>
             if is_breakpoint_x86_64 (ev_pid ev) stop (tgt m) then Return (False, m\<lparr>cur_bp := None\<rparr>)
             else main_expire ev (m\<lparr>cur_bp := None\<rparr>)))"

definition main_trap :: "event \<Rightarrow> mon \<Rightarrow> (bool \<times> mon) run" where
  "main_trap ev m =
     (let p = ev_pid ev;
          (stop, regs, t) = pc_unwind_x86_64 p (ptrace_get_regs p (ev_regs ev) (tgt m)) (tgt m);
          m = m\<lparr>tgt := t\<rparr>
      in if return_address m \<noteq> 0 \<and> last_thread m \<noteq> p then
           (if length (hold_threads m) < HOLD_MAX
            then Return (True, m\<lparr>hold_threads := hold_threads m @ [p]\<rparr>)
            else Crash BufferOverflow)
         else run_bind (main_leave p m) (main_dispatch ev stop regs))"

text \<open>What \<open>waitpid\<close> reports of a thread.\<close>

definition main_wait :: "event \<Rightarrow> mon \<Rightarrow> mon" where
  "main_wait ev m =
     (if ev_pid ev < 0 then m else m\<lparr>tgt := waited (ev_pid ev) (WIFSTOPPED (ev_status ev)) (tgt m)\<rparr>)"

text \<open>A stop by SIGSTOP.\<close>

definition main_stop :: "event \<Rightarrow> mon \<Rightarrow> (bool \<times> mon) run" where
  "main_stop ev m =
     (let p = ev_pid ev
      in if g_signo m = SIGALRM then main_expire ev (m\<lparr>g_signo := 0\<rparr>)
         else if g_signo m \<noteq> 0 then Return (False, m)
         else run_bind (proc_task_check (ev_proc ev) p) (\<lambda>task.
                if task then Return (True, m\<lparr>tgt := ptrace_continue p 0 (tgt m)\<rparr>)
                else Return (True, m\<lparr>tgt := ptrace_detach p 0 (breakpoint_cleanup (g_breakpoints m) p (tgt m))\<rparr>)))"

text \<open>Act on the status that \<open>waitpid\<close> delivers.\<close>

definition main_status :: "event \<Rightarrow> mon \<Rightarrow> (bool \<times> mon) run" where
  "main_status ev m =
     (let p = ev_pid ev; signum = WSTOPSIG (ev_status ev)
      in if p < 0 then
           (if ev_eintr ev then Return (True, m) else Return (False, m))
         else if \<not> WIFSTOPPED (ev_status ev) then
           (if p \<noteq> g_target_pid m then Return (True, m) else Return (False, m))
         else if signum = SIGSTOP then main_stop ev m
         else if signum \<noteq> SIGTRAP then Return (True, m\<lparr>tgt := ptrace_continue p signum (tgt m)\<rparr>)
         else if ptrace_new_child (ev_status ev) then Return (True, m\<lparr>tgt := ptrace_continue p 0 (tgt m)\<rparr>)
         else main_trap ev m)"

definition main_step :: "event \<Rightarrow> mon \<Rightarrow> (bool \<times> mon) run" where
  "main_step ev m = main_status ev (main_wait ev m)"

section \<open>Before and after the loop\<close>

text \<open>Attach to the other threads (\<open>tasks\<close>, as \<open>proc_tasks\<close> delivers them), then to the target; after
  an attachment \<open>waitpid\<close> waits until the thread has stopped.\<close>

fun attach_tasks :: "(pid \<Rightarrow> bool) \<Rightarrow> pid \<Rightarrow> pid list \<Rightarrow> target64 \<Rightarrow> target64 run" where
  "attach_tasks ok p [] t = Return t"
| "attach_tasks ok p (task # tasks) t =
     (if task \<le> 0 then Return t
      else if task = p then attach_tasks ok p tasks t
      else run_bind (ptrace_attach (ok task) task t) (\<lambda>t.
             attach_tasks ok p tasks (ptrace_continue task 0 (ptrace_trace_child task (waited task True t)))))"

definition main_begin ::
  "(pid \<Rightarrow> bool) \<Rightarrow> pid list \<Rightarrow> opts \<Rightarrow> pid \<Rightarrow> int \<Rightarrow> trk \<Rightarrow> target64 \<Rightarrow> mon run" where
  "main_begin ok tasks og p now st t =
     run_bind (attach_tasks ok p tasks t) (\<lambda>t.
     run_bind (ptrace_attach (ok p) p t) (\<lambda>t.
     run_bind (breakpoint_init (g_symbol_table (tables st)) p (ptrace_trace_child p (waited p True t))) (\<lambda>(bps, t).
       Return \<lparr>tgt = ptrace_continue p 0 t, g_breakpoints = bps, trkr = st, cur_bp = None,
         return_address = 0, return_code = 0, arg1 = 0, arg2 = 0, last_thread = 0, hold_threads = [],
         g_signo = 0, g_target_pid = p, mopts = og, begin_time = now, alarms = []\<rparr>)))"

text \<open>After the loop: remove the traps, detach, report. The result is the exit status, the
  target and the report, if there is one; \<open>mem_ok\<close> tells whether there is memory for it.\<close>

definition main_cleanup :: "mon \<Rightarrow> target64" where
  "main_cleanup m =
     (let p = g_target_pid m;
          t = breakpoint_cleanup (g_breakpoints m) p (tgt m);
          t = (if return_address m \<noteq> 0 then ptrace_set_data p (return_address m) (return_code m) t else t)
      in ptrace_detach p 0 t)"

definition main_end :: "(nat \<Rightarrow> bool) \<Rightarrow> int \<Rightarrow> mon \<Rightarrow> (int \<times> target64 \<times> report_line list) run" where
  "main_end mem_ok now m =
     (let t = main_cleanup m
      in if now - begin_time m < memory_expire (mopts m) then Return (2, t, [])
         else run_bind (memblock_count now (trkr m)) (\<lambda>st.
                run_bind (callstack_report mem_ok st) (\<lambda>rep. Return (0, t, rep))))"

end
