(* ===== verification/Monitor_Text.thy ===== *)
theory Monitor_Text
  imports Monitor
begin

text \<open>
  The safety of the monitoring loop: whatever the target and the signals do, as long as
  stacks lie outside the text and new processes do not share the target's memory, the only bytes
  of the program text that differ from the original are trap bytes, at entries of the
  four functions and at the current return address, and the saved words are original
  text. So the end of the loop gives the target back its text, if the requests of the
  clean-up find its main thread stopped.
\<close>

section \<open>The invariant\<close>

definition entries :: "mon \<Rightarrow> u64 set" where
  "entries m = entry_address ` set (g_breakpoints m)"

text \<open>A return address that a trap can be set at: its word and the words of the entries lie
  apart.\<close>

definition ret_ok :: "u64 set \<Rightarrow> breakpoint_s list \<Rightarrow> u64 \<Rightarrow> bool" where
  "ret_ok X bps ra \<longleftrightarrow> ra \<noteq> 0 \<and> window ra \<subseteq> X \<and> window ra \<inter> entry_address ` set bps = {} \<and>
     (\<forall>bp \<in> set bps. ra \<notin> window (entry_address bp))"

definition return_traps :: "mon \<Rightarrow> u64 set" where
  "return_traps m = (if return_address m \<noteq> 0 then {return_address m} else {})"

text \<open>The traps that should be in place: every entry, except that during a call its entry trap
  is exchanged for one at the return address.\<close>

definition expected_traps :: "mon \<Rightarrow> u64 set" where
  "expected_traps m =
     (case cur_bp m of
        Some i \<Rightarrow> if return_address m \<noteq> 0
                  then insert (return_address m) (entries m - {entry_address (g_breakpoints m ! i)}) else entries m
      | None \<Rightarrow> entries m)"

definition mon_text :: "mon \<Rightarrow> u64 \<Rightarrow> u8" where
  "mon_text m = space_of (g_target_pid m) (tgt m)"

definition saved_ok :: "(u64 \<Rightarrow> u8) \<Rightarrow> u64 set \<Rightarrow> mon \<Rightarrow> bool" where
  "saved_ok orig X m \<longleftrightarrow> bps_ok orig X (g_breakpoints m) \<and>
     (return_address m \<noteq> 0 \<longrightarrow> ret_ok X (g_breakpoints m) (return_address m) \<and>
        return_code m = peek orig (return_address m)) \<and>
     (\<forall>i. cur_bp m = Some i \<longrightarrow> i < length (g_breakpoints m))"

definition text_inv :: "(u64 \<Rightarrow> u8) \<Rightarrow> u64 set \<Rightarrow> mon \<Rightarrow> u64 set \<Rightarrow> bool" where
  "text_inv orig X m T \<longleftrightarrow> saved_ok orig X m \<and> T \<subseteq> entries m \<union> return_traps m \<and> patched orig T X (mon_text m)"

text \<open>What the kernel and the program guarantee of a stop by SIGTRAP: the thread runs in the
  target's memory, its stack is not text, and at an entry the return address is usable.\<close>

definition stopped_by :: "event \<Rightarrow> int \<Rightarrow> bool" where
  "stopped_by ev signo \<longleftrightarrow> 0 \<le> ev_pid ev \<and> WIFSTOPPED (ev_status ev) \<and> WSTOPSIG (ev_status ev) = signo"

text \<open>The registers of the thread, and the word its stack pointer points to.\<close>

definition regs_of :: "mon \<Rightarrow> event \<Rightarrow> x86_64_regs" where
  "regs_of m ev = tregs (tgt m) (ev_pid ev)"

definition stack_word :: "pid \<Rightarrow> x86_64_regs \<Rightarrow> target64 \<Rightarrow> u64" where
  "stack_word p regs t = peek (space_of p t) (rsp regs)"

definition good_event :: "u64 set \<Rightarrow> mon \<Rightarrow> event \<Rightarrow> bool" where
  "good_event X m ev \<longleftrightarrow> (stopped_by ev SIGTRAP \<longrightarrow>
     (let p = ev_pid ev; regs = regs_of m ev in
       tspace (tgt m) p = tspace (tgt m) (g_target_pid m) \<and> window (rsp regs) \<inter> X = {} \<and>
       (rip regs - 1 \<in> entries m \<longrightarrow>
          ret_ok X (g_breakpoints m) (stack_word p regs (tgt m)))))"

section \<open>Frames\<close>

lemma space_of_frame [simp]:
  "space_of p (t\<lparr>tlog := l\<rparr>) = space_of p t" "space_of p (t\<lparr>tregs := r\<rparr>) = space_of p t"
  "space_of p (t\<lparr>tstop := s\<rparr>) = space_of p t"
  by (simp_all add: space_of_def)

lemma space_of_requests [simp]:
  "space_of p (ptrace_continue q s t) = space_of p t" "space_of p (ptrace_detach q s t) = space_of p t"
  "space_of p (ptrace_trace_child q t) = space_of p t" "space_of p (ptrace_set_regs q r t) = space_of p t"
  "tspace (ptrace_continue q s t) = tspace t" "tspace (ptrace_detach q s t) = tspace t"
  "tspace (ptrace_trace_child q t) = tspace t" "tspace (ptrace_set_regs q r t) = tspace t"
  "space_of p (waited q b t) = space_of p t" "tspace (waited q b t) = tspace t"
  by (simp_all add: ptrace_continue_def ptrace_detach_def ptrace_trace_child_def ptrace_set_regs_def waited_def)

lemma tstop_requests [simp]:
  "tstop (ptrace_trace_child q t) = tstop t" "tstop (ptrace_set_regs q r t) = tstop t"
  "tstop (waited q b t) = (tstop t)(q := b)" "tstop (ptrace_continue q s t) = (tstop t)(q := False)"
  "tstop (ptrace_detach q s t) = (tstop t)(q := False)"
  by (simp_all add: ptrace_continue_def ptrace_detach_def ptrace_trace_child_def ptrace_set_regs_def waited_def)

lemma return_address_stack: "tstop t p \<Longrightarrow> call_return_address_x86_64 p regs t = stack_word p regs t"
  by (simp add: call_return_address_x86_64_def stack_word_def get_data_space)

lemma space_of_same_space: "tspace t p = tspace t q \<Longrightarrow> space_of p t = space_of q t"
  by (simp add: space_of_def)

lemma text_inv_frame:
  assumes "text_inv orig X m T" and "g_breakpoints m' = g_breakpoints m" "return_address m' = return_address m"
    "return_code m' = return_code m" "mon_text m' = mon_text m"
    "\<forall>i. cur_bp m' = Some i \<longrightarrow> i < length (g_breakpoints m)"
  shows "text_inv orig X m' T"
  using assms by (auto simp: text_inv_def saved_ok_def entries_def return_traps_def)

lemma expected_traps_frame:
  "g_breakpoints m' = g_breakpoints m \<Longrightarrow> return_address m' = return_address m \<Longrightarrow> cur_bp m' = cur_bp m \<Longrightarrow>
    expected_traps m' = expected_traps m"
  by (simp add: expected_traps_def entries_def split: option.split)

lemma main_expire_frame:
  assumes "main_expire ev m = Return (b, m')"
  shows "\<exists>st al l s. m' = m\<lparr>trkr := st, alarms := al, tgt := (tgt m)\<lparr>tlog := l, tstop := s\<rparr>\<rparr>"
proof -
  from assms obtain nxt st where
    "b = False \<and> m' = m\<lparr>trkr := st\<rparr> \<or>
     b = True \<and> m' = m\<lparr>trkr := st, alarms := alarms m @ [nxt], tgt := ptrace_continue (ev_pid ev) 0 (tgt m)\<rparr>"
    by (auto simp: main_expire_def run_bind_Return Let_def split: if_splits)
  moreover have "m\<lparr>trkr := st\<rparr> = m\<lparr>trkr := st, alarms := alarms m,
      tgt := (tgt m)\<lparr>tlog := tlog (tgt m), tstop := tstop (tgt m)\<rparr>\<rparr>" by simp
  ultimately show ?thesis unfolding ptrace_continue_def by blast
qed

lemma text_inv_expire:
  assumes "main_expire ev m = Return (b, m')" "text_inv orig X m T"
  shows "text_inv orig X m' T \<and> expected_traps m' = expected_traps m"
proof -
  from main_expire_frame [OF assms(1)] obtain st al l s
    where "m' = m\<lparr>trkr := st, alarms := al, tgt := (tgt m)\<lparr>tlog := l, tstop := s\<rparr>\<rparr>" by blast
  with assms(2) show ?thesis
    by (intro conjI text_inv_frame [OF assms(2)] expected_traps_frame) (auto simp: mon_text_def text_inv_def saved_ok_def)
qed

section \<open>Traps\<close>

lemma ret_ok_apart:
  assumes "ret_ok X bps ra"
  shows "window ra \<subseteq> X" "apart ra (insert ra (entry_address ` set bps))" "ra \<notin> entry_address ` set bps"
    "bps_ok orig X bps \<Longrightarrow> bp \<in> set bps \<Longrightarrow> apart (entry_address bp) (insert ra (entry_address ` set bps))"
proof -
  have "ra \<in> window ra" by simp
  with assms show "ra \<notin> entry_address ` set bps" by (auto simp: ret_ok_def)
  show "window ra \<subseteq> X" "apart ra (insert ra (entry_address ` set bps))"
    using assms by (auto simp: ret_ok_def apart_def)
  show "apart (entry_address bp) (insert ra (entry_address ` set bps))" if "bps_ok orig X bps" "bp \<in> set bps"
    using assms that by (auto simp: ret_ok_def apart_def bps_ok_def)
qed

text \<open>Leaving the call in progress: the return trap is removed and the entry trap set again.\<close>

lemma leave_call:
  assumes "bps_ok orig X bps" "ret_ok X bps ra" "bp \<in> set bps"
    and "patched orig T X (space_of p t)" "T \<subseteq> insert ra (entry_address ` set bps)" and "tstop t p"
  shows "patched orig (insert (entry_address bp) (T - {ra})) X
     (space_of p (set_breakpoint_x86_64 p (entry_address bp) (entry_code bp)
        (ptrace_set_data p ra (peek orig ra) t)))"
proof -
  note r = ret_ok_apart [OF assms(2)]
  have "patched orig (T - {ra}) X (space_of p (ptrace_set_data p ra (peek orig ra) t))"
    using r(1,2) assms(4-6) by (intro patched_clear) (auto intro: apart_subset)
  moreover have "entry_code bp = peek orig (entry_address bp)" "window (entry_address bp) \<subseteq> X"
    "apart (entry_address bp) (T - {ra})"
    using assms by (auto simp: bps_ok_def intro: apart_subset)
  ultimately show ?thesis using assms(6) by (simp add: patched_set)
qed

text \<open>Entering a call: the entry trap is removed and a trap set at the return address.\<close>

lemma enter_call:
  assumes "bps_ok orig X bps" "ret_ok X bps ra" "bp \<in> set bps"
    and "patched orig T X (space_of p t)" "T \<subseteq> entry_address ` set bps" and "tstop t p"
  defines "t1 \<equiv> ptrace_set_data p (entry_address bp) (entry_code bp) t"
  shows "ptrace_get_data p ra t1 = peek orig ra"
    and "patched orig (insert ra (T - {entry_address bp})) X
      (space_of p (set_breakpoint_x86_64 p ra (peek orig ra) t1))"
proof -
  note r = ret_ok_apart [OF assms(2)]
  have bp: "entry_code bp = peek orig (entry_address bp)" "window (entry_address bp) \<subseteq> X"
    "apart (entry_address bp) T"
    using assms by (auto simp: bps_ok_def intro: apart_subset)
  have t1: "patched orig (T - {entry_address bp}) X (space_of p t1)"
    unfolding t1_def bp(1) by (rule patched_clear [OF assms(6,4) bp(2,3)])
  have a: "apart ra (T - {entry_address bp})" using assms(5) by (intro apart_subset [OF r(2)]) auto
  from patched_peek [OF t1 r(1) a] r(3) assms(5) show "ptrace_get_data p ra t1 = peek orig ra"
    using assms(6) by (auto simp: get_data_space t1_def)
  have "tstop t1 p" using assms(6) by (simp add: t1_def)
  from patched_set [OF this t1 r(1) a] show "patched orig (insert ra (T - {entry_address bp})) X
      (space_of p (set_breakpoint_x86_64 p ra (peek orig ra) t1))" .
qed

text \<open>Words outside the text do not change.\<close>

lemma get_data_cong: "(\<And>x. x \<in> window a \<Longrightarrow> space_of p t x = space_of p t' x) \<Longrightarrow> tstop t p = tstop t' p \<Longrightarrow>
    ptrace_get_data p a t = ptrace_get_data p a t'"
  unfolding ptrace_get_data_def space_of_def using peek_cong by auto

lemma get_data_away:
  assumes "window a \<inter> X = {}" "window b \<subseteq> X"
  shows "ptrace_get_data p a (ptrace_set_data p b d t) = ptrace_get_data p a t"
    "ptrace_get_data p a (set_breakpoint_x86_64 p b d t) = ptrace_get_data p a t"
  using assms
  by (cases "tstop t p"; auto intro!: get_data_cong poke_outside simp: set_breakpoint_x86_64_def set_data_space requests_running)+

section \<open>Preservation\<close>

lemma mon_text_thread:
  "tspace (tgt m) p = tspace (tgt m) (g_target_pid m) \<Longrightarrow> mon_text m = space_of p (tgt m)"
  by (simp add: mon_text_def space_of_def)

lemma main_leave_text:
  assumes inv: "text_inv orig X m T" and p: "tspace (tgt m) p = tspace (tgt m) (g_target_pid m)"
    and stop: "tstop (tgt m) p" and ret: "main_leave p m = Return m1"
  shows "m1 = m\<lparr>tgt := tgt m1\<rparr> \<and> tspace (tgt m1) = tspace (tgt m) \<and> tregs (tgt m1) = tregs (tgt m) \<and> tstop (tgt m1) = tstop (tgt m) \<and>
     (\<forall>a. window a \<inter> X = {} \<longrightarrow> ptrace_get_data p a (tgt m1) = ptrace_get_data p a (tgt m)) \<and>
     (\<exists>T'. T' \<subseteq> entries m \<and> patched orig T' X (space_of p (tgt m1)) \<and>
        T' = (if return_address m = 0 then T
              else insert (entry_address (g_breakpoints m ! the (cur_bp m))) (T - {return_address m})))"
proof (cases "return_address m = 0")
  case True
  with inv p ret mon_text_thread [OF p] show ?thesis
    by (auto simp: main_leave_def text_inv_def return_traps_def)
next
  case False
  let ?bps = "g_breakpoints m" and ?ra = "return_address m"
  from False ret obtain i where i: "cur_bp m = Some i"
    and m1: "m1 = m\<lparr>tgt := set_breakpoint_x86_64 p (entry_address (?bps ! i)) (entry_code (?bps ! i))
      (ptrace_set_data p ?ra (return_code m) (tgt m))\<rparr>"
    by (auto simp: main_leave_def Let_def split: option.splits)
  from inv False i have ok: "bps_ok orig X ?bps" "ret_ok X ?bps ?ra" "return_code m = peek orig ?ra"
    and bp: "?bps ! i \<in> set ?bps" and T: "T \<subseteq> insert ?ra (entry_address ` set ?bps)"
    and pt: "patched orig T X (space_of p (tgt m))"
    by (auto simp: text_inv_def saved_ok_def return_traps_def entries_def mon_text_thread [OF p])
  have "patched orig (insert (entry_address (?bps ! i)) (T - {?ra})) X (space_of p (tgt m1))"
    using leave_call [OF ok(1,2) bp pt T stop] by (simp add: m1 ok(3))
  moreover have "window (entry_address (?bps ! i)) \<subseteq> X" "window ?ra \<subseteq> X"
    using ok bp by (auto simp: bps_ok_def ret_ok_def)
  then have "window a \<inter> X = {} \<Longrightarrow> ptrace_get_data p a (tgt m1) = ptrace_get_data p a (tgt m)" for a
    by (simp add: m1 get_data_away)
  moreover have "tregs (tgt m1) = tregs (tgt m)"
    by (simp add: m1 set_breakpoint_x86_64_def ptrace_set_data_def)
  ultimately show ?thesis
    using False T bp i by (auto simp: m1 entries_def)
qed

lemma main_entry_text:
  assumes ok: "bps_ok orig X (g_breakpoints m)" and i: "i < length (g_breakpoints m)"
    and ra: "ret_ok X (g_breakpoints m) (call_return_address_x86_64 (ev_pid ev) regs (tgt m))"
    and stack: "window (rsp regs) \<inter> X = {}"
    and p: "tspace (tgt m) (ev_pid ev) = tspace (tgt m) (g_target_pid m)" and stop: "tstop (tgt m) (ev_pid ev)"
    and T: "patched orig T X (space_of (ev_pid ev) (tgt m))" "T \<subseteq> entries m"
    and ret: "main_entry ev regs i m = Return (b, m')"
  shows "text_inv orig X m' (insert (return_address m') (T - {entry_address (g_breakpoints m ! i)})) \<and>
    return_address m' = call_return_address_x86_64 (ev_pid ev) regs (tgt m) \<and> cur_bp m' = Some i \<and>
    g_breakpoints m' = g_breakpoints m \<and> last_thread m' = ev_pid ev"
proof -
  let ?p = "ev_pid ev" and ?bp = "g_breakpoints m ! i"
  let ?t1 = "ptrace_set_data ?p (entry_address ?bp) (entry_code ?bp) (tgt m)"
  let ?ra = "call_return_address_x86_64 ?p regs (tgt m)"
  let ?m = "m\<lparr>tgt := set_breakpoint_x86_64 ?p ?ra (ptrace_get_data ?p ?ra ?t1) ?t1, cur_bp := Some i,
      return_address := ?ra, return_code := ptrace_get_data ?p ?ra ?t1,
      arg1 := call_arg1_x86_64 regs, arg2 := call_arg2_x86_64 regs, last_thread := ?p\<rparr>"
  have bp: "?bp \<in> set (g_breakpoints m)" using i by simp
  with ok have "window (entry_address ?bp) \<subseteq> X" by (simp add: bps_ok_def)
  then have "call_return_address_x86_64 ?p regs ?t1 = ?ra"
    using stack by (simp add: call_return_address_x86_64_def get_data_away)
  then have ex: "main_expire ev ?m = Return (b, m')" using ret by (simp add: main_entry_def Let_def)
  have c: "ptrace_get_data ?p ?ra ?t1 = peek orig ?ra"
    "patched orig (insert ?ra (T - {entry_address ?bp})) X
      (space_of ?p (set_breakpoint_x86_64 ?p ?ra (peek orig ?ra) ?t1))"
    using enter_call [OF ok ra bp T(1) _ stop] T(2) by (simp_all add: entries_def)
  have "mon_text ?m = space_of ?p (tgt ?m)" using p by (intro mon_text_thread) simp
  then have "text_inv orig X ?m (insert ?ra (T - {entry_address ?bp}))"
    using ok ra c i T(2) by (auto simp: text_inv_def saved_ok_def entries_def return_traps_def ret_ok_def)
  from text_inv_expire [OF ex this] main_expire_frame [OF ex] show ?thesis by auto
qed

lemma main_return_text:
  assumes inv: "text_inv orig X (m\<lparr>return_address := 0\<rparr>) T" and ret: "main_return ev regs m = Return (b, m')"
  shows "text_inv orig X m' T \<and> return_address m' = 0 \<and> g_breakpoints m' = g_breakpoints m"
proof -
  from ret obtain st where cases: "m' = m\<lparr>return_address := 0, trkr := st\<rparr> \<or>
      main_expire ev (wake_one (m\<lparr>return_address := 0, trkr := st\<rparr>)) = Return (b, m')"
    by (auto simp: main_return_def Let_def run_bind_Return split: option.splits if_split_asm)
  have wake: "text_inv orig X (wake_one (m\<lparr>return_address := 0, trkr := st\<rparr>)) T"
    "return_address (wake_one (m\<lparr>return_address := 0, trkr := st\<rparr>)) = 0"
    "g_breakpoints (wake_one (m\<lparr>return_address := 0, trkr := st\<rparr>)) = g_breakpoints m"
    using inv by (auto simp: wake_one_def mon_text_def text_inv_def saved_ok_def entries_def return_traps_def)
  from cases show ?thesis
  proof
    assume "m' = m\<lparr>return_address := 0, trkr := st\<rparr>"
    with inv show ?thesis
      by (auto simp: mon_text_def text_inv_def saved_ok_def entries_def return_traps_def)
  next
    assume ex: "main_expire ev (wake_one (m\<lparr>return_address := 0, trkr := st\<rparr>)) = Return (b, m')"
    with text_inv_expire [OF ex wake(1)] main_expire_frame [OF ex] wake(2,3) show ?thesis by auto
  qed
qed

lemma main_trap_text:
  assumes inv: "text_inv orig X m T" and ev: "good_event X m ev" "stopped_by ev SIGTRAP"
    and stop: "tstop (tgt m) (ev_pid ev)" and ret: "main_trap ev m = Return (b, m')"
  shows "\<exists>T'. text_inv orig X m' T' \<and> (T = expected_traps m \<longrightarrow> T' = expected_traps m')"
proof -
  define p where "p = ev_pid ev"
  define regs where "regs = regs_of m ev"
  define regs' where "regs' = regs\<lparr>rip := rip regs - 1\<rparr>"
  define m0 where "m0 = m\<lparr>tgt := ptrace_set_regs p regs' (tgt m)\<rparr>"
  have g: "tspace (tgt m) p = tspace (tgt m) (g_target_pid m)" "window (rsp regs) \<inter> X = {}"
    "rip regs - 1 \<in> entries m \<longrightarrow> ret_ok X (g_breakpoints m) (stack_word p regs (tgt m))"
    using ev by (simp_all add: good_event_def Let_def p_def regs_def)
  have inv0: "text_inv orig X m0 T"
    using inv by (intro text_inv_frame [OF inv]) (auto simp: m0_def mon_text_def text_inv_def saved_ok_def)
  have p0: "tspace (tgt m0) p = tspace (tgt m0) (g_target_pid m0)" using g by (simp add: m0_def)
  have trap: "main_trap ev m = (if return_address m0 \<noteq> 0 \<and> last_thread m0 \<noteq> p then
      (if length (hold_threads m0) < HOLD_MAX then Return (True, m0\<lparr>hold_threads := hold_threads m0 @ [p]\<rparr>)
       else Crash BufferOverflow)
     else run_bind (main_leave p m0) (main_dispatch ev (rip regs') regs'))"
    using stop by (simp add: main_trap_def pc_unwind_x86_64_def ptrace_get_regs_def regs_of_def Let_def p_def regs_def regs'_def m0_def)
  show ?thesis
  proof (cases "return_address m0 \<noteq> 0 \<and> last_thread m0 \<noteq> p")
    case True
    with ret have "m' = m0\<lparr>hold_threads := hold_threads m0 @ [p]\<rparr>" by (simp add: trap split: if_splits)
    then have "text_inv orig X m' T" "expected_traps m' = expected_traps m"
      using inv0 by (intro text_inv_frame [OF inv0] expected_traps_frame; simp add: m0_def mon_text_def text_inv_def saved_ok_def)+
    then show ?thesis by blast
  next
    case False
    with ret obtain m1 where leave: "main_leave p m0 = Return m1" unfolding trap by (auto simp: run_bind_Return)
    have stop0: "tstop (tgt m0) p" using stop by (simp add: m0_def p_def)
    from main_leave_text [OF inv0 p0 stop0 leave] obtain T' t1 where m1: "m1 = m0\<lparr>tgt := t1\<rparr>"
      and sp: "tspace t1 = tspace (tgt m0)" and stop1: "tstop t1 p" and T': "T' \<subseteq> entries m0" "patched orig T' X (space_of p t1)"
      and T'': "T' = (if return_address m0 = 0 then T
        else insert (entry_address (g_breakpoints m0 ! the (cur_bp m0))) (T - {return_address m0}))"
      and away: "\<forall>a. window a \<inter> X = {} \<longrightarrow> ptrace_get_data p a t1 = ptrace_get_data p a (tgt m0)" using stop0 by auto
    have p1: "tspace (tgt m1) p = tspace (tgt m1) (g_target_pid m1)" using p0 by (simp add: m1 sp)
    have inv1: "text_inv orig X m1 T'" "text_inv orig X (m1\<lparr>return_address := 0\<rparr>) T'"
      using inv0 T' mon_text_thread [OF p1]
      by (auto simp: m1 text_inv_def saved_ok_def entries_def return_traps_def mon_text_def)
    then have inv2: "text_inv orig X (m1\<lparr>cur_bp := None\<rparr>) T'"
      by (intro text_inv_frame [OF inv1(1)]) (simp_all add: mon_text_def)
    have all: "T' = entries m" if "T = expected_traps m"
    proof (cases "return_address m0 = 0")
      case True
      with that T'' show ?thesis by (auto simp: expected_traps_def m0_def split: option.splits)
    next
      case False
      with leave obtain i where i: "cur_bp m = Some i" "i < length (g_breakpoints m)"
        using inv by (auto simp: main_leave_def m0_def text_inv_def saved_ok_def split: option.splits)
      have "return_address m \<notin> entries m"
        using inv False ret_ok_apart(3) by (auto simp: text_inv_def saved_ok_def entries_def m0_def)
      with False that T'' i show ?thesis by (auto simp: expected_traps_def m0_def entries_def)
    qed
    have e1: "entries m1 = entries m" by (simp add: entries_def m1 m0_def)
    have rest: "rip regs' = return_address m1 \<and> main_return ev regs' m1 = Return (b, m') \<or>
      (\<exists>i. breakpoint_by_entry (rip regs') (g_breakpoints m1) = Some i \<and> main_entry ev regs' i m1 = Return (b, m')) \<or>
      m' = m1\<lparr>cur_bp := None\<rparr> \<or> main_expire ev (m1\<lparr>cur_bp := None\<rparr>) = Return (b, m')"
      using ret False leave unfolding trap main_dispatch_def by (auto split: if_splits option.splits)
    from rest show ?thesis
    proof (elim disjE exE conjE)
      assume "main_return ev regs' m1 = Return (b, m')"
      from main_return_text [OF inv1(2) this] all e1 show ?thesis
        by (intro exI [of _ T']) (auto simp: expected_traps_def entries_def split: option.splits)
    next
      fix i assume i: "breakpoint_by_entry (rip regs') (g_breakpoints m1) = Some i"
        and e: "main_entry ev regs' i m1 = Return (b, m')"
      have "rip regs - 1 \<in> entries m"
        using breakpoint_by_entry_in [OF i] by (simp add: entries_def regs'_def m1 m0_def)
      moreover have "call_return_address_x86_64 p regs' (tgt m1) = stack_word p regs (tgt m)"
      proof -
        have "call_return_address_x86_64 p regs' (tgt m1) = ptrace_get_data p (rsp regs) (tgt m0)"
          using away g(2) by (simp add: call_return_address_x86_64_def regs'_def m1)
        then show ?thesis using stop0 by (simp add: get_data_space stack_word_def) (simp add: m0_def)
      qed
      ultimately have ra: "ret_ok X (g_breakpoints m1) (call_return_address_x86_64 p regs' (tgt m1))"
        using g(3) by (simp add: m1 m0_def)
      have "text_inv orig X m' (insert (return_address m') (T' - {entry_address (g_breakpoints m1 ! i)})) \<and>
          return_address m' = call_return_address_x86_64 (ev_pid ev) regs' (tgt m1) \<and> cur_bp m' = Some i \<and>
          g_breakpoints m' = g_breakpoints m1 \<and> last_thread m' = ev_pid ev"
        by (rule main_entry_text [OF _ _ _ _ _ _ _ _ e])
           (use inv1(1) T' ra p1 g(2) stop1 breakpoint_by_entry_Some [OF i] in
             \<open>simp_all add: text_inv_def saved_ok_def entries_def p_def [symmetric] m1 regs'_def\<close>)
      with all ra e1 show ?thesis
        by (intro exI [of _ "insert (return_address m') (T' - {entry_address (g_breakpoints m1 ! i)})"])
           (auto simp: expected_traps_def entries_def p_def ret_ok_def)
    next
      assume "m' = m1\<lparr>cur_bp := None\<rparr>"
      with inv2 all e1 show ?thesis
        by (intro exI [of _ T']) (auto simp: expected_traps_def entries_def)
    next
      assume "main_expire ev (m1\<lparr>cur_bp := None\<rparr>) = Return (b, m')"
      from text_inv_expire [OF this inv2] all e1 show ?thesis
        by (intro exI [of _ T']) (auto simp: expected_traps_def entries_def)
    qed
  qed
qed

lemma text_inv_apart:
  assumes inv: "text_inv orig X m T"
  shows "\<forall>bp \<in> set (g_breakpoints m). entry_code bp = peek orig (entry_address bp) \<and>
      window (entry_address bp) \<subseteq> X \<and> apart (entry_address bp) T"
  using inv ret_ok_apart(4) [of X "g_breakpoints m" "return_address m" orig]
  by (auto simp: text_inv_def saved_ok_def bps_ok_def entries_def return_traps_def intro: apart_subset split: if_splits)

text \<open>Detaching a new process changes its own memory; if it shares the target's memory, as
  after \<open>vfork\<close>, the traps at the entries go.\<close>

lemma cleanup_text:
  assumes inv: "text_inv orig X m T" and stop: "tstop (tgt m) p"
  shows "\<exists>T' \<subseteq> T. text_inv orig X (m\<lparr>tgt := ptrace_detach p 0 (breakpoint_cleanup (g_breakpoints m) p (tgt m))\<rparr>) T' \<and>
    (T' = (if tspace (tgt m) p = tspace (tgt m) (g_target_pid m) then T - entries m else T))"
proof -
  let ?t = "breakpoint_cleanup (g_breakpoints m) p (tgt m)"
  note ap = text_inv_apart [OF inv]
  have "\<exists>T' \<subseteq> T. patched orig T' X (space_of (g_target_pid m) ?t) \<and>
    T' = (if tspace (tgt m) p = tspace (tgt m) (g_target_pid m) then T - entries m else T)"
  proof (cases "tspace (tgt m) p = tspace (tgt m) (g_target_pid m)")
    case True
    with inv have "patched orig T X (space_of p (tgt m))" by (simp add: text_inv_def mon_text_thread [OF True])
    from patched_cleanup_gen [OF ap this stop] True have "patched orig (T - entry_address ` set (g_breakpoints m)) X (space_of (g_target_pid m) ?t)"
      using space_of_same_space [of ?t p "g_target_pid m"] by simp
    with True show ?thesis by (intro exI [of _ "T - entries m"]) (auto simp: entries_def)
  next
    case False
    have "space_of q (breakpoint_cleanup bps p t) = space_of q t" if "tspace t q \<noteq> tspace t p" for bps q and t :: target64
      using that by (induction bps arbitrary: t)
        (simp_all add: breakpoint_cleanup_def space_of_def ptrace_set_data_def)
    with False inv show ?thesis by (intro exI [of _ T]) (auto simp: text_inv_def mon_text_def)
  qed
  then obtain T' where "T' \<subseteq> T" "patched orig T' X (space_of (g_target_pid m) ?t)"
    "T' = (if tspace (tgt m) p = tspace (tgt m) (g_target_pid m) then T - entries m else T)" by blast
  with inv show ?thesis
    by (intro exI [of _ T']) (auto simp: text_inv_def saved_ok_def entries_def return_traps_def mon_text_def)
qed

text \<open>A new process is a child whose id is not among the threads of the target; it has its own memory (not
  so after \<open>vfork\<close>).\<close>

definition new_process :: "event \<Rightarrow> bool" where
  "new_process ev \<longleftrightarrow> stopped_by ev SIGSTOP \<and> proc_task_check (ev_proc ev) (ev_pid ev) = Return False"

definition own_memory :: "mon \<Rightarrow> event \<Rightarrow> bool" where
  "own_memory m ev \<longleftrightarrow> (new_process ev \<and> g_signo m = 0 \<longrightarrow>
     tspace (tgt m) (ev_pid ev) \<noteq> tspace (tgt m) (g_target_pid m))"

text \<open>The stop of a new process, as the code sees it.\<close>

abbreviation child_left :: "event \<Rightarrow> mon \<Rightarrow> mon" where
  "child_left ev m \<equiv>
     m\<lparr>tgt := ptrace_detach (ev_pid ev) 0 (breakpoint_cleanup (g_breakpoints m) (ev_pid ev) (tgt m))\<rparr>"

lemma main_stop_cases:
  assumes "main_stop ev m = Return (b, m')"
  obtains (alarm) "g_signo m = SIGALRM" "main_expire ev (m\<lparr>g_signo := 0\<rparr>) = Return (b, m')"
  | (signal) "g_signo m \<noteq> 0" "g_signo m \<noteq> SIGALRM" "\<not> b" "m' = m"
  | (thread) "g_signo m = 0" "proc_task_check (ev_proc ev) (ev_pid ev) = Return True" "b"
      "m' = m\<lparr>tgt := ptrace_continue (ev_pid ev) 0 (tgt m)\<rparr>"
  | (child) "g_signo m = 0" "proc_task_check (ev_proc ev) (ev_pid ev) = Return False" "b" "m' = child_left ev m"
proof (cases "g_signo m = 0")
  case True
  with assms have "run_bind (proc_task_check (ev_proc ev) (ev_pid ev)) (\<lambda>task.
      if task then Return (True, m\<lparr>tgt := ptrace_continue (ev_pid ev) 0 (tgt m)\<rparr>) else Return (True, child_left ev m)) = Return (b, m')"
    by (simp add: main_stop_def Let_def SIGALRM_def)
  with True thread child show thesis by (auto simp: run_bind_Return split: if_split_asm)
next
  case False
  with assms alarm signal show thesis by (auto simp: main_stop_def Let_def split: if_split_asm)
qed

lemma main_status_text:
  assumes inv: "text_inv orig X m T" and ev: "good_event X m ev" and ret: "main_status ev m = Return (b, m')"
    and stop: "0 \<le> ev_pid ev \<and> WIFSTOPPED (ev_status ev) \<longrightarrow> tstop (tgt m) (ev_pid ev)"
  shows "\<exists>T'. text_inv orig X m' T' \<and> (T = expected_traps m \<and> own_memory m ev \<longrightarrow> T' = expected_traps m')"
proof -
  have "text_inv orig X (m\<lparr>tgt := ptrace_continue p s (tgt m)\<rparr>) T" "text_inv orig X (m\<lparr>g_signo := z\<rparr>) T" for p s z
    using inv by (auto simp: text_inv_def saved_ok_def entries_def return_traps_def mon_text_def)
  moreover have "expected_traps (m\<lparr>tgt := t\<rparr>) = expected_traps m" "expected_traps (m\<lparr>g_signo := z\<rparr>) = expected_traps m" for z t
    by (rule expected_traps_frame; simp)+
  ultimately have frame: "text_inv orig X (m\<lparr>tgt := ptrace_continue p s (tgt m)\<rparr>) T" "text_inv orig X (m\<lparr>g_signo := z\<rparr>) T"
    "expected_traps (m\<lparr>tgt := t\<rparr>) = expected_traps m" "expected_traps (m\<lparr>g_signo := z\<rparr>) = expected_traps m" for p s z t
    by blast+
  consider (same) "m' = m" | (cont) p s where "m' = m\<lparr>tgt := ptrace_continue p s (tgt m)\<rparr>"
    | (alarm) "main_expire ev (m\<lparr>g_signo := 0\<rparr>) = Return (b, m')"
    | (child) "new_process ev" "g_signo m = 0" "tstop (tgt m) (ev_pid ev)" "m' = child_left ev m"
    | (trap) "stopped_by ev SIGTRAP" "main_trap ev m = Return (b, m')" "tstop (tgt m) (ev_pid ev)"
    using ret stop by (auto simp: main_status_def new_process_def Let_def stopped_by_def elim!: main_stop_cases split: if_splits)
  then show ?thesis
  proof cases
    case alarm
    from text_inv_expire [OF this frame(2)] frame(4) show ?thesis by auto
  next
    case child
    with cleanup_text [OF inv child(3)] frame(3) show ?thesis
      unfolding own_memory_def by (intro exI [of _ "if tspace (tgt m) (ev_pid ev) = tspace (tgt m) (g_target_pid m) then T - entries m else T"]) auto
  next
    case trap
    from main_trap_text [OF inv ev trap(1,3,2)] show ?thesis by blast
  next
    case same
    with inv show ?thesis by blast
  next
    case cont
    with frame show ?thesis by auto
  qed
qed

text \<open>\<open>waitpid\<close> changes neither memory nor registers.\<close>

lemma main_wait_fields [simp]:
  "g_breakpoints (main_wait ev m) = g_breakpoints m" "trkr (main_wait ev m) = trkr m" "cur_bp (main_wait ev m) = cur_bp m"
  "return_address (main_wait ev m) = return_address m" "return_code (main_wait ev m) = return_code m"
  "arg1 (main_wait ev m) = arg1 m" "arg2 (main_wait ev m) = arg2 m" "last_thread (main_wait ev m) = last_thread m"
  "hold_threads (main_wait ev m) = hold_threads m" "g_signo (main_wait ev m) = g_signo m"
  "g_target_pid (main_wait ev m) = g_target_pid m" "mopts (main_wait ev m) = mopts m"
  "begin_time (main_wait ev m) = begin_time m" "alarms (main_wait ev m) = alarms m"
  by (simp_all add: main_wait_def)

lemma main_wait_target [simp]:
  "space_of p (tgt (main_wait ev m)) = space_of p (tgt m)" "tspace (tgt (main_wait ev m)) = tspace (tgt m)"
  "tregs (tgt (main_wait ev m)) = tregs (tgt m)" "tlog (tgt (main_wait ev m)) = tlog (tgt m)"
  by (simp_all add: main_wait_def waited_def)

lemma main_wait_stopped:
  "0 \<le> ev_pid ev \<Longrightarrow> tstop (tgt (main_wait ev m)) = (tstop (tgt m))(ev_pid ev := WIFSTOPPED (ev_status ev))"
  by (simp add: main_wait_def)

lemma main_wait_views [simp]:
  "mon_text (main_wait ev m) = mon_text m" "entries (main_wait ev m) = entries m" "regs_of (main_wait ev m) ev' = regs_of m ev'"
  "expected_traps (main_wait ev m) = expected_traps m" "return_traps (main_wait ev m) = return_traps m"
  "text_inv orig X (main_wait ev m) T = text_inv orig X m T" "good_event X (main_wait ev m) ev' = good_event X m ev'"
  "own_memory (main_wait ev m) ev' = own_memory m ev'"
  by (simp_all add: mon_text_def entries_def regs_of_def expected_traps_def return_traps_def text_inv_def saved_ok_def
      good_event_def own_memory_def stack_word_def split: option.split)

lemma main_step_text:
  assumes "text_inv orig X m T" and "good_event X m ev" and "main_step ev m = Return (b, m')"
  shows "\<exists>T'. text_inv orig X m' T' \<and> (T = expected_traps m \<and> own_memory m ev \<longrightarrow> T' = expected_traps m')"
  using main_status_text [of orig X "main_wait ev m" T ev b m'] assms by (simp add: main_step_def main_wait_stopped)

end
