(* ===== verification/Monitor_Run.thy ===== *)
theory Monitor_Run
  imports Monitor_Text
begin

text \<open>
  Runs of the monitor: the states the loop of \<open>memleax.c\<close> reaches while the target runs,
  signals arrive and iterations are done in any order; what holds of the target's text in
  all of them, when monitoring ends and when the target creates processes.
\<close>

section \<open>Runs\<close>

text \<open>
  \<open>monitored orig X own m\<close>: state \<open>m\<close> is reached from the start of the loop on a target
  whose text on \<open>X\<close> is \<open>orig\<close>. Between iterations the target may change everything except
  its text. With \<open>own\<close>, every new process has its own memory.
\<close>

inductive monitored :: "(u64 \<Rightarrow> u8) \<Rightarrow> u64 set \<Rightarrow> bool \<Rightarrow> mon \<Rightarrow> bool"
  for orig X own
where
  start: "main_begin ok tasks og p now st t = Return m \<Longrightarrow> apis_ok (g_symbol_table (tables st)) X \<Longrightarrow>
    (\<forall>x \<in> X. space_of p t x = orig x) \<Longrightarrow> monitored orig X own m"
| run: "monitored orig X own m \<Longrightarrow>
    (\<forall>x \<in> X. space_of (g_target_pid m) t x = space_of (g_target_pid m) (tgt m) x) \<Longrightarrow>
    monitored orig X own (m\<lparr>tgt := t\<rparr>)"
| signal: "monitored orig X own m \<Longrightarrow> monitored orig X own (signal_handler signo m)"
| iteration: "monitored orig X own m \<Longrightarrow> good_event X m ev \<Longrightarrow> (own \<longrightarrow> own_memory m ev) \<Longrightarrow>
    main_step ev m = Return (True, m') \<Longrightarrow> monitored orig X own m'"

lemma attach_tasks_space: "attach_tasks ok p tasks t = Return t' \<Longrightarrow> space_of q t' = space_of q t \<and> tspace t' = tspace t"
proof (induction tasks arbitrary: t)
  case (Cons a tasks)
  have att: "ptrace_attach b a t = Return u \<Longrightarrow> space_of q u = space_of q t \<and> tspace u = tspace t" for b u
    by (auto simp: ptrace_attach_def split: if_splits)
  show ?case
    using Cons att by (fastforce simp: run_bind_Return split: if_splits)
qed simp

lemma main_begin_text:
  assumes b: "main_begin ok tasks og p now st t = Return m" and a: "apis_ok (g_symbol_table (tables st)) X"
    and o: "\<forall>x \<in> X. space_of p t x = orig x"
  shows "text_inv orig X m (expected_traps m) \<and> map entry_address (g_breakpoints m) = api_entries (g_symbol_table (tables st)) \<and>
    map handler (g_breakpoints m) = [Bph_malloc, Bph_free, Bph_realloc, Bph_calloc] \<and> g_target_pid m = p"
proof -
  from b obtain t1 t2 bps t3 where t1: "attach_tasks ok p tasks t = Return t1" and t2: "ptrace_attach (ok p) p t1 = Return t2"
    and bi: "breakpoint_init (g_symbol_table (tables st)) p (ptrace_trace_child p (waited p True t2)) = Return (bps, t3)"
    and m: "m = \<lparr>tgt = ptrace_continue p 0 t3, g_breakpoints = bps, trkr = st, cur_bp = None,
         return_address = 0, return_code = 0, arg1 = 0, arg2 = 0, last_thread = 0, hold_threads = [],
         g_signo = 0, g_target_pid = p, mopts = og, begin_time = now, alarms = []\<rparr>"
    by (auto simp: main_begin_def run_bind_Return)
  have "space_of p t2 = space_of p t"
    using attach_tasks_space [OF t1] t2 by (auto simp: ptrace_attach_def split: if_splits)
  with o have "patched orig {} X (space_of p (ptrace_trace_child p (waited p True t2)))" by (simp add: patched_def)
  from breakpoint_init_ok [OF a this] bi have "bps_ok orig X bps" "patched orig (entry_address ` set bps) X (space_of p t3)"
    "map entry_address bps = api_entries (g_symbol_table (tables st))"
    "map handler bps = [Bph_malloc, Bph_free, Bph_realloc, Bph_calloc]" by auto
  then show ?thesis
    by (auto simp: m text_inv_def saved_ok_def entries_def mon_text_def expected_traps_def)
qed

lemma monitored_text:
  assumes "monitored orig X own m"
  shows "\<exists>T. text_inv orig X m T \<and> (own \<longrightarrow> T = expected_traps m)"
  using assms
proof induction
  case (start ok tasks og p now st t m)
  with main_begin_text [of ok tasks og p now st t m X orig] show ?case by blast
next
  case (run m t)
  then obtain T where T: "text_inv orig X m T" "own \<longrightarrow> T = expected_traps m" by blast
  then have "text_inv orig X (m\<lparr>tgt := t\<rparr>) T"
    using run.hyps(2) by (auto simp: text_inv_def saved_ok_def entries_def return_traps_def mon_text_def patched_def)
  with T show ?case using expected_traps_frame [of "m\<lparr>tgt := t\<rparr>" m] by auto
next
  case (signal m signo)
  then obtain T where T: "text_inv orig X m T" "own \<longrightarrow> T = expected_traps m" by blast
  then have "text_inv orig X (signal_handler signo m) T"
    by (auto simp: signal_handler_def text_inv_def saved_ok_def entries_def return_traps_def mon_text_def)
  moreover have "expected_traps (signal_handler signo m) = expected_traps m"
    by (rule expected_traps_frame) (simp_all add: signal_handler_def)
  ultimately show ?case using T by auto
next
  case (iteration m ev m')
  then obtain T where "text_inv orig X m T" "own \<longrightarrow> T = expected_traps m" by blast
  with main_step_text [OF _ iteration.hyps(2,4)] iteration.hyps(3) show ?case by blast
qed

section \<open>The end of monitoring\<close>

lemma main_cleanup_text:
  assumes "text_inv orig X m T" and stop: "tstop (tgt m) (g_target_pid m)"
  shows "\<forall>x \<in> X. space_of (g_target_pid m) (main_cleanup m) x = orig x"
proof -
  let ?p = "g_target_pid m" and ?bps = "g_breakpoints m"
  let ?t = "breakpoint_cleanup ?bps ?p (tgt m)"
  from cleanup_text [OF assms] have c: "text_inv orig X (m\<lparr>tgt := ptrace_detach ?p 0 ?t\<rparr>) (T - entries m)" by auto
  then have pt: "patched orig (T - entries m) X (space_of ?p ?t)" by (simp add: text_inv_def mon_text_def)
  have sub: "T - entries m \<subseteq> return_traps m" using assms by (auto simp: text_inv_def)
  show ?thesis
  proof (cases "return_address m = 0")
    case True
    with pt sub show ?thesis by (auto simp: main_cleanup_def patched_def return_traps_def Let_def)
  next
    case False
    with assms have ra: "ret_ok X ?bps (return_address m)" "return_code m = peek orig (return_address m)"
      by (auto simp: text_inv_def saved_ok_def)
    have "tstop ?t ?p" using stop by simp
    then have "patched orig (T - entries m - {return_address m}) X
        (space_of ?p (ptrace_set_data ?p (return_address m) (return_code m) ?t))"
      unfolding ra(2) using sub ret_ok_apart(1,2) [OF ra(1)]
      by (intro patched_clear [OF _ pt]) (auto simp: return_traps_def False intro: apart_subset)
    with False sub show ?thesis by (auto simp: main_cleanup_def patched_def return_traps_def Let_def)
  qed
qed

text \<open>On a target that is not stopped the clean-up has no effect on memory.\<close>

lemma main_cleanup_running:
  assumes "\<not> tstop (tgt m) (g_target_pid m)"
  shows "space_of (g_target_pid m) (main_cleanup m) = mon_text m"
  using assms by (simp add: main_cleanup_def cleanup_running requests_running mon_text_def Let_def)

section \<open>Stops at an entry and at a return\<close>

definition trap_stop :: "event \<Rightarrow> bool" where
  "trap_stop ev \<longleftrightarrow> stopped_by ev SIGTRAP \<and> \<not> ptrace_new_child (ev_status ev)"

definition unwound :: "mon \<Rightarrow> event \<Rightarrow> x86_64_regs" where
  "unwound m ev = (regs_of m ev)\<lparr>rip := rip (regs_of m ev) - 1\<rparr>"

definition rewound :: "mon \<Rightarrow> event \<Rightarrow> mon" where
  "rewound m ev = (main_wait ev m)\<lparr>tgt := ptrace_set_regs (ev_pid ev) (unwound m ev) (tgt (main_wait ev m))\<rparr>"

lemma rewound_fields [simp]:
  "g_breakpoints (rewound m ev) = g_breakpoints m" "trkr (rewound m ev) = trkr m" "cur_bp (rewound m ev) = cur_bp m"
  "return_address (rewound m ev) = return_address m" "return_code (rewound m ev) = return_code m"
  "hold_threads (rewound m ev) = hold_threads m" "last_thread (rewound m ev) = last_thread m"
  "g_target_pid (rewound m ev) = g_target_pid m" "mopts (rewound m ev) = mopts m" "g_signo (rewound m ev) = g_signo m"
  "arg1 (rewound m ev) = arg1 m" "arg2 (rewound m ev) = arg2 m" "alarms (rewound m ev) = alarms m"
  "space_of q (tgt (rewound m ev)) = space_of q (tgt m)" "tspace (tgt (rewound m ev)) = tspace (tgt m)"
  by (simp_all add: rewound_def)

lemma step_trap:
  assumes "trap_stop ev"
  shows "main_step ev m = (if return_address m \<noteq> 0 \<and> last_thread m \<noteq> ev_pid ev then
      (if length (hold_threads m) < HOLD_MAX
       then Return (True, (rewound m ev)\<lparr>hold_threads := hold_threads m @ [ev_pid ev]\<rparr>) else Crash BufferOverflow)
     else run_bind (main_leave (ev_pid ev) (rewound m ev)) (main_dispatch ev (rip (unwound m ev)) (unwound m ev)))"
proof -
  have "main_step ev m = main_trap ev (main_wait ev m)"
    using assms by (simp add: trap_stop_def stopped_by_def main_step_def main_status_def Let_def SIGTRAP_def SIGSTOP_def)
  moreover have "tstop (tgt (main_wait ev m)) (ev_pid ev)"
    using assms by (simp add: trap_stop_def stopped_by_def main_wait_stopped)
  ultimately show ?thesis
    by (simp add: main_trap_def pc_unwind_x86_64_def ptrace_get_regs_def Let_def rewound_def unwound_def regs_of_def)
qed

lemma rewound_stopped: "trap_stop ev \<Longrightarrow> tstop (tgt (rewound m ev)) = (tstop (tgt m))(ev_pid ev := True)"
  by (simp add: rewound_def trap_stop_def stopped_by_def main_wait_stopped)

lemma step_entry:
  assumes "trap_stop ev" "return_address m = 0" "rip (unwound m ev) \<noteq> 0"
    and "breakpoint_by_entry (rip (unwound m ev)) (g_breakpoints m) = Some i"
  shows "main_step ev m = main_entry ev (unwound m ev) i (rewound m ev)"
  using assms by (simp add: step_trap main_leave_def main_dispatch_def)

lemma main_expire_Return:
  "main_expire ev m = Return (b, m') \<Longrightarrow> \<exists>nxt. memblock_expire (ev_now ev) (memory_expire (mopts m)) (memblock_limit (mopts m))
     (callstack_limit (mopts m)) (trkr m) = Return (nxt, trkr m') \<and> b = (0 \<le> nxt)"
  by (auto simp: main_expire_def run_bind_Return Let_def split: if_splits)

lemma main_entry_fields:
  assumes "main_entry ev regs i m = Return (b, m')"
  shows "cur_bp m' = Some i" "last_thread m' = ev_pid ev" "arg1 m' = rdi regs" "arg2 m' = rsi regs"
    "g_breakpoints m' = g_breakpoints m" "g_target_pid m' = g_target_pid m" "g_signo m' = g_signo m"
    "mopts m' = mopts m" "hold_threads m' = hold_threads m" "tspace (tgt m') = tspace (tgt m)"
    "return_address m' = call_return_address_x86_64 (ev_pid ev) regs
       (ptrace_set_data (ev_pid ev) (entry_address (g_breakpoints m ! i)) (entry_code (g_breakpoints m ! i)) (tgt m))"
    "\<exists>nxt. memblock_expire (ev_now ev) (memory_expire (mopts m)) (memblock_limit (mopts m))
     (callstack_limit (mopts m)) (trkr m) = Return (nxt, trkr m') \<and> b = (0 \<le> nxt)"
  using assms main_expire_frame main_expire_Return
  by (fastforce simp: main_entry_def Let_def call_arg1_x86_64_def call_arg2_x86_64_def)+

lemma step_return:
  assumes "trap_stop ev" "return_address m \<noteq> 0" "last_thread m = ev_pid ev" "cur_bp m = Some i"
    and "rip (unwound m ev) = return_address m"
  shows "\<exists>t. main_step ev m = main_return ev (unwound m ev) (m\<lparr>tgt := t\<rparr>)"
  using assms by (auto simp: step_trap main_leave_def main_dispatch_def rewound_def main_wait_def Let_def)

text \<open>An example run: the start, and then a call of \<open>malloc\<close> by the target's thread 7. Words on
  the stack, at address 0x7000, are not text.\<close>

definition demo_text :: "u64 set" where
  "demo_text = - window 0x7000"

definition demo_env :: sym_env where
  "demo_env = \<lparr>g_addr_maps = [], g_symbol_table = demo_symbols, g_dwarf_dies = []\<rparr>"

definition trap_event :: event where
  "trap_event = \<lparr>ev_pid = 7, ev_eintr = False, ev_status = 0x57f,
     ev_proc = \<lparr>maps_file = None, exe_link = None, task_dir = Some [''7'']\<rparr>,
     ev_regs = \<lparr>rsp = 0, rax = 0, rsi = 0, rdi = 0, rip = 0\<rparr>, ev_he = demo_he, ev_now = 105\<rparr>"

definition wait_error :: event where
  "wait_error = trap_event\<lparr>ev_pid := -1\<rparr>"

lemma demo_apis: "apis_ok demo_symbols demo_text"
proof -
  have "window a \<inter> window 0x7000 = {}" if "a \<in> {0x1000, 0x1010, 0x1020, 0x1030}" for a :: u64
    using that by (intro window_disjoint) auto
  with demo_apis_ok show ?thesis by (auto simp: apis_ok_def demo_entries demo_text_def)
qed

lemma memblock_expire_init: "memblock_expire now ex ml cl (init_trk env) = Return (0, init_trk env)"
  by (simp add: memblock_expire_def memblock_expire_loop.simps init_trk_def empty_heap_def)

definition demo_stop :: "mon \<Rightarrow> target64" where
  "demo_stop m = demo_target\<lparr>tmem := (\<lambda>_ x. if x \<in> window 0x7000 then 0x90 else mon_text m x)\<rparr>"

lemma demo_start:
  "\<exists>m. monitored (\<lambda>_. 0x90) demo_text True m \<and> main_begin (\<lambda>_. True) [7] default_opts 7 100 (init_trk demo_env) demo_target = Return m \<and>
     trkr m = init_trk demo_env \<and> return_address m = 0 \<and> g_target_pid m = 7 \<and> g_signo m = 0 \<and> mopts m = default_opts \<and>
     map entry_address (g_breakpoints m) = [0x1000, 0x1010, 0x1020, 0x1030] \<and> hold_threads m = [] \<and>
     map handler (g_breakpoints m) = [Bph_malloc, Bph_free, Bph_realloc, Bph_calloc]"
proof -
  let ?t = "ptrace_trace_child 7 (waited 7 True (demo_target\<lparr>tlog := [Attach 7]\<rparr>))"
  have tab: "g_symbol_table (tables (init_trk demo_env)) = demo_symbols" by (simp add: init_trk_def demo_env_def)
  have "patched (\<lambda>_. 0x90) {} demo_text (space_of 7 ?t)" by (simp add: patched_def space_of_def demo_target_def ptrace_trace_child_def waited_def)
  from breakpoint_init_ok [OF demo_apis this] obtain bps t' where "breakpoint_init demo_symbols 7 ?t = Return (bps, t')" by auto
  then obtain m where m: "main_begin (\<lambda>_. True) [7] default_opts 7 100 (init_trk demo_env) demo_target = Return m"
    "trkr m = init_trk demo_env" "return_address m = 0" "g_target_pid m = 7" "g_signo m = 0" "mopts m = default_opts" "hold_threads m = []"
    by (simp add: main_begin_def tab ptrace_attach_def demo_target_def)
  have o: "\<forall>x \<in> demo_text. space_of 7 demo_target x = 0x90" by (simp add: space_of_def demo_target_def)
  from main_begin_text [OF m(1) _ o] monitored.start [OF m(1) _ o] m demo_apis show ?thesis
    by (intro exI [of _ m]) (simp add: tab demo_entries)
qed

text \<open>The monitor after the call of \<open>malloc\<close> has been seen.\<close>

lemma demo_call:
  "\<exists>m. monitored (\<lambda>_. 0x90) demo_text True m \<and> return_address m = 0x9090909090909090 \<and> cur_bp m = Some 0 \<and>
     g_target_pid m = 7 \<and> g_signo m = 0 \<and> map entry_address (g_breakpoints m) = [0x1000, 0x1010, 0x1020, 0x1030] \<and>
     last_thread m = 7 \<and> (\<forall>q. tspace (tgt m) q = 0) \<and> hold_threads m = []"
proof -
  obtain m0 where m0: "monitored (\<lambda>_. 0x90) demo_text True m0" "trkr m0 = init_trk demo_env"
    "return_address m0 = 0" "g_target_pid m0 = 7" "g_signo m0 = 0" "mopts m0 = default_opts"
    "map entry_address (g_breakpoints m0) = [0x1000, 0x1010, 0x1020, 0x1030]" "hold_threads m0 = []"
    by (rule exE [OF demo_start], elim conjE, rule that)
  define m1 where "m1 = m0\<lparr>tgt := demo_stop m0\<rparr>"
  have m1: "monitored (\<lambda>_. 0x90) demo_text True m1"
    unfolding m1_def by (rule monitored.run [OF m0(1)])
      (simp add: m0(4) mon_text_def demo_text_def demo_stop_def space_of_def demo_target_def)
  have bps: "entry_address ` set (g_breakpoints m0) = {0x1000, 0x1010, 0x1020, 0x1030}"
    using arg_cong [OF m0(7), of set] by simp
  have regs: "regs_of m1 trap_event = \<lparr>rsp = 0x7000, rax = 0, rsi = 0, rdi = 0, rip = 0x1001\<rparr>"
    by (simp add: regs_of_def m1_def demo_stop_def demo_target_def ptrace_get_regs_def)
  have ra: "stack_word 7 r (tgt m1) = 0x9090909090909090" if "rsp r = 0x7000" for r
  proof -
    have "peek (space_of 7 (tgt m1)) 0x7000 = peek (\<lambda>_. 0x90) (0x7000 :: u64)"
      by (rule peek_cong) (simp add: m1_def demo_stop_def space_of_def)
    also have "\<dots> = 0x9090909090909090" by (simp add: peek_def upt_rec)
    finally show ?thesis using that by (simp add: stack_word_def)
  qed
  have "window (0x9090909090909090 :: u64) \<inter> window 0x7000 = {}" by (rule window_disjoint) simp_all
  moreover have "\<forall>a \<in> entry_address ` set (g_breakpoints m0). a \<notin> window 0x9090909090909090 \<and> 0x9090909090909090 \<notin> window a"
    unfolding bps by (simp add: window_def)
  ultimately have rok: "ret_ok demo_text (g_breakpoints m1) 0x9090909090909090"
    unfolding ret_ok_def demo_text_def m1_def by auto
  have ev: "ev_pid trap_event = 7" "WSTOPSIG (ev_status trap_event) = 5"
    by (simp_all add: trap_event_def WSTOPSIG_def)
  have sp: "tspace (tgt m1) = (\<lambda>_. 0)" by (simp add: m1_def demo_stop_def demo_target_def)
  have g: "good_event demo_text m1 trap_event" "own_memory m1 trap_event"
    using regs ra rok by (simp_all add: good_event_def own_memory_def new_process_def stopped_by_def ev SIGSTOP_def sp demo_text_def Let_def)
  have len: "length (g_breakpoints m0) = 4" using arg_cong [OF m0(7), of length] by simp
  have i: "breakpoint_by_entry 0x1000 (g_breakpoints m1) = Some 0"
    using m0(7) len by (cases "g_breakpoints m0") (auto simp: breakpoint_by_entry_def m1_def)
  have ts: "trap_stop trap_event"
    by (simp add: trap_stop_def stopped_by_def trap_event_def WSTOPSIG_def WIFSTOPPED_def SIGTRAP_def ptrace_new_child_def)
  have un: "rip (unwound m1 trap_event) = 0x1000" "rsp (unwound m1 trap_event) = 0x7000" by (simp_all add: unwound_def regs)
  have st: "main_step trap_event m1 = main_entry trap_event (unwound m1 trap_event) 0 (rewound m1 trap_event)"
    by (rule step_entry [OF ts]) (simp_all add: un i, simp add: m1_def m0(3))
  then obtain m2 where m2: "main_step trap_event m1 = Return (True, m2)"
    by (simp add: main_entry_def main_expire_def Let_def rewound_def m1_def m0(2,6) memblock_expire_init)
  have "window (entry_address (g_breakpoints m0 ! 0)) \<inter> window 0x7000 = {}"
    using m0(7) len by (intro window_disjoint; cases "g_breakpoints m0") auto
  then have stack: "window 0x7000 \<inter> demo_text = {}" and sub: "window (entry_address (g_breakpoints m0 ! 0)) \<subseteq> demo_text" by (auto simp: demo_text_def)
  have "call_return_address_x86_64 7 (unwound m1 trap_event) (ptrace_set_data 7 (entry_address (g_breakpoints m0 ! 0)) d
      (tgt (rewound m1 trap_event))) = 0x9090909090909090" for d
    using ra [OF un(2)] by (simp add: call_return_address_x86_64_def un get_data_away(1) [OF stack sub])
      (simp add: get_data_space rewound_stopped [OF ts] ev stack_word_def un)
  then have "return_address m2 = 0x9090909090909090" "cur_bp m2 = Some 0" "g_target_pid m2 = 7" "g_signo m2 = 0"
    "g_breakpoints m2 = g_breakpoints m0" "last_thread m2 = 7" "\<forall>q. tspace (tgt m2) q = 0" "hold_threads m2 = []"
    using main_entry_fields [OF m2 [unfolded st]] m0 sp by (simp_all add: ev) (simp_all add: m1_def)
  then show ?thesis using monitored.iteration [OF m1 g(1) _ m2] g(2) m0(7) by (intro exI [of _ m2]) simp
qed

section \<open>Breaking out of the loop\<close>

lemma main_expire_break: "main_expire ev m = Return (False, m') \<Longrightarrow> tgt m' = tgt m"
  by (auto simp: main_expire_def run_bind_Return Let_def split: if_splits)

lemma main_return_break:
  assumes "main_return ev regs m = Return (False, m')" and "q \<notin> set (hold_threads m)" and "tstop (tgt m) q"
  shows "tstop (tgt m') q"
proof -
  from assms(1) obtain st where "tgt m' = tgt m \<or>
      main_expire ev (wake_one (m\<lparr>return_address := 0, trkr := st\<rparr>)) = Return (False, m')"
    by (auto simp: main_return_def Let_def run_bind_Return split: option.splits if_split_asm)
  moreover have "tstop (tgt (wake_one (m\<lparr>return_address := 0, trkr := st\<rparr>))) q"
    using assms(2,3) last_in_set [of "hold_threads m"] by (cases "hold_threads m = []") (auto simp: wake_one_def)
  ultimately show ?thesis using assms(3) main_expire_break by fastforce
qed

lemma main_leave_stop:
  "main_leave p m = Return m1 \<Longrightarrow> tstop (tgt m1) = tstop (tgt m) \<and> hold_threads m1 = hold_threads m"
  by (auto simp: main_leave_def Let_def split: if_splits option.splits)

lemma main_entry_break:
  assumes "main_entry ev regs i m = Return (False, m')"
  shows "tstop (tgt m') = tstop (tgt m)"
  using assms by (auto simp: main_entry_def Let_def dest: main_expire_break)

text \<open>The thread whose stop was reported last is still stopped when the loop ends there.\<close>

lemma step_break_stopped:
  assumes ev: "0 \<le> ev_pid ev" "WIFSTOPPED (ev_status ev)" and held: "ev_pid ev \<notin> set (hold_threads m)"
    and s: "main_step ev m = Return (False, m')"
  shows "tstop (tgt m') (ev_pid ev)"
proof (cases "trap_stop ev")
  case False
  have w: "tstop (tgt (main_wait ev m)) (ev_pid ev)" using ev by (simp add: main_wait_stopped)
  have "main_stop ev (main_wait ev m) = Return (False, m')"
    using False ev s by (auto simp: main_step_def main_status_def Let_def trap_stop_def stopped_by_def split: if_splits)
  then show ?thesis
    by (cases rule: main_stop_cases) (use w main_expire_break in fastforce)+
next
  case True
  then have w: "tstop (tgt (rewound m ev)) (ev_pid ev)" by (simp add: rewound_stopped)
  from s obtain m1 where leave: "main_leave (ev_pid ev) (rewound m ev) = Return m1"
    and d: "main_dispatch ev (rip (unwound m ev)) (unwound m ev) m1 = Return (False, m')"
    by (auto simp: step_trap [OF True] run_bind_Return split: if_splits)
  have m1: "tstop (tgt m1) (ev_pid ev)" "ev_pid ev \<notin> set (hold_threads m1)"
    using main_leave_stop [OF leave] w held by simp_all
  consider "main_return ev (unwound m ev) m1 = Return (False, m')" | i where "main_entry ev (unwound m ev) i m1 = Return (False, m')"
    | "tgt m' = tgt m1" | "main_expire ev (m1\<lparr>cur_bp := None\<rparr>) = Return (False, m')"
    using d by (auto simp: main_dispatch_def split: if_splits option.splits)
  then show ?thesis
  proof cases
    case 1
    from main_return_break [OF this m1(2,1)] show ?thesis .
  next
    case 2
    from main_entry_break [OF this] m1(1) show ?thesis by simp
  next
    case 4
    from main_expire_break [OF this] m1(1) show ?thesis by simp
  qed (simp add: m1(1))
qed

section \<open>Properties of all runs\<close>

text \<open>C1 (text_restored): when the loop ends, after any run of the target, of signals and of loop iterations, in
  a call or not, in which threads that stop by SIGTRAP run in the target's memory with a stack outside its text and
  calls return to addresses whose words overlap no entry, the clean-up gives the target its original program text back exactly if the target's main
  thread is stopped then; if it is running, every request of the clean-up fails and the text keeps all
  traps it has. The main thread is stopped if it is the thread whose stop ended the loop (and not one of
  the held threads, which are not reported again), as when a signal told the program to end. The last request is to
  detach from the main thread.\<close>

theorem text_restored:
  assumes "monitored orig X own m" and "good_event X m ev" and "main_step ev m = Return (False, m')"
  shows "(\<forall>x \<in> X. space_of (g_target_pid m') (main_cleanup m') x =
       (if tstop (tgt m') (g_target_pid m') then orig x else mon_text m' x)) \<and>
    (0 \<le> ev_pid ev \<and> WIFSTOPPED (ev_status ev) \<and> ev_pid ev = g_target_pid m' \<and> ev_pid ev \<notin> set (hold_threads m) \<longrightarrow>
       tstop (tgt m') (g_target_pid m')) \<and>
    last (tlog (main_cleanup m')) = Detach (g_target_pid m') 0"
proof -
  obtain T T' where "text_inv orig X m T" "text_inv orig X m' T'"
    using monitored_text [OF assms(1)] main_step_text [OF _ assms(2,3)] by blast
  moreover have "last (tlog (main_cleanup m')) = Detach (g_target_pid m') 0"
    by (simp add: main_cleanup_def ptrace_detach_def Let_def)
  ultimately show ?thesis
    using main_cleanup_text main_cleanup_running step_break_stopped [OF _ _ _ assms(3)] by auto
qed

text \<open>For example: the program is told to end while the target is in a call of \<open>malloc\<close>, and the target
  stops for the SIGSTOP of the signal handler.\<close>

definition end_event :: event where
  "end_event = trap_event\<lparr>ev_status := 0x137f\<rparr>"

theorem text_restored_witness:
  "\<exists>m m'. monitored (\<lambda>_. 0x90) demo_text True m \<and> return_address m = 0x9090909090909090 \<and>
     main_step end_event m = Return (False, m') \<and> (\<forall>x \<in> demo_text. space_of 7 (main_cleanup m') x = 0x90)"
proof -
  obtain m0 where m0: "monitored (\<lambda>_. 0x90) demo_text True m0" "return_address m0 = 0x9090909090909090" "g_target_pid m0 = 7"
      "hold_threads m0 = []"
    by (rule exE [OF demo_call], elim conjE, rule that)
  define m where "m = signal_handler SIGTERM m0"
  have m: "monitored (\<lambda>_. 0x90) demo_text True m" "return_address m = 0x9090909090909090" "g_target_pid m = 7" "hold_threads m = []"
    "g_signo m = SIGTERM"
    using m0 monitored.signal [OF m0(1)] by (simp_all add: m_def signal_handler_def)
  have ev: "ev_pid end_event = 7" "WIFSTOPPED (ev_status end_event)" "WSTOPSIG (ev_status end_event) = SIGSTOP"
    by (simp_all add: end_event_def trap_event_def WIFSTOPPED_def WSTOPSIG_def SIGSTOP_def)
  have e: "main_step end_event m = Return (False, main_wait end_event m)"
    using m(5) by (simp add: main_step_def main_status_def main_stop_def ev Let_def) (simp add: SIGTERM_def SIGALRM_def)
  have g: "good_event demo_text m end_event" by (simp add: good_event_def stopped_by_def ev) (simp add: SIGSTOP_def SIGTRAP_def)
  from text_restored [OF m(1) g e] m ev have "\<forall>x \<in> demo_text. space_of 7 (main_cleanup (main_wait end_event m)) x = 0x90"
    by simp
  with m e show ?thesis by (intro exI [of _ m] exI [of _ "main_wait end_event m"]) simp
qed

text \<open>Fact (text_left_patched): when the loop ends while the main thread is running, as after an error of \<open>waitpid\<close> or
  the stop of another thread, the target goes on with the traps in its text, and no tracer.\<close>

theorem text_left_patched:
  assumes "monitored orig X True m" and "good_event X m ev" and "own_memory m ev" and "main_step ev m = Return (False, m')"
    and "\<not> tstop (tgt m') (g_target_pid m')"
  shows "\<forall>x \<in> X \<inter> expected_traps m'. space_of (g_target_pid m') (main_cleanup m') x = 0xCC"
proof -
  obtain T' where "text_inv orig X m' T'" "T' = expected_traps m'"
    using monitored_text [OF assms(1)] main_step_text [OF _ assms(2,4)] assms(3) by blast
  then show ?thesis unfolding main_cleanup_running [OF assms(5)] by (auto simp: text_inv_def patched_def)
qed

theorem text_left_patched_witness:
  "\<exists>m. monitored (\<lambda>_. 0x90) demo_text True m \<and> main_step wait_error m = Return (False, m) \<and>
     space_of 7 (main_cleanup m) 0x1010 = 0xCC"
proof -
  obtain m0 where m0: "monitored (\<lambda>_. 0x90) demo_text True m0" "return_address m0 = 0"
    "map entry_address (g_breakpoints m0) = [0x1000, 0x1010, 0x1020, 0x1030]" "g_target_pid m0 = 7"
    by (rule exE [OF demo_start], elim conjE, rule that)
  define m where "m = m0\<lparr>tgt := (tgt m0)\<lparr>tstop := (\<lambda>_. False)\<rparr>\<rparr>"
  have m: "monitored (\<lambda>_. 0x90) demo_text True m" unfolding m_def by (rule monitored.run [OF m0(1)]) simp
  have "0x1010 \<in> entries m" using arg_cong [OF m0(3), of set] by (simp add: entries_def m_def)
  moreover have "expected_traps m = entries m" using m0(2) by (simp add: expected_traps_def m_def split: option.split)
  ultimately have x: "0x1010 \<in> demo_text \<inter> expected_traps m" by (simp add: demo_text_def window_def)
  have e: "good_event demo_text m wait_error" "own_memory m wait_error" "main_step wait_error m = Return (False, m)"
    by (simp_all add: good_event_def own_memory_def new_process_def stopped_by_def main_step_def main_wait_def main_status_def
        wait_error_def trap_event_def)
  have f: "\<not> tstop (tgt m) (g_target_pid m)" "g_target_pid m = 7" by (simp_all add: m_def m0(4))
  from text_left_patched [OF m e f(1)] x m e(3) f(2) show ?thesis by (intro exI [of _ m]) simp
qed

text \<open>Fact (task_check_ends_monitoring): when \<open>/proc/pid/task\<close> cannot be opened, a stop by SIGSTOP without a signal for
  the program ends the program with status 3 at once, with all traps in place.\<close>

theorem task_check_ends_monitoring:
  assumes "stopped_by ev SIGSTOP" and "g_signo m = 0" and "task_dir (ev_proc ev) = None"
  shows "main_step ev m = Exit 3"
  using assms by (simp add: main_step_def main_status_def main_stop_def stopped_by_def proc_task_check_def Let_def SIGALRM_def)

text \<open>C2 (traps_armed): in every state that the loop reaches on runs in which new processes have their own memory (so
  none is made by \<open>vfork\<close>), threads that stop by SIGTRAP run in the target's memory with a stack outside its text,
  and calls return to addresses whose words overlap no entry, the target's text differs from the original
  exactly by the traps that should be there: one at each allocation function, except that the function
  being executed has its trap at the return address instead. So no call of an idle function goes unseen,
  and the function in progress is seen when it returns.\<close>

theorem traps_armed:
  assumes "monitored orig X True m"
  shows "\<forall>x \<in> X. mon_text m x = (if x \<in> expected_traps m then 0xCC else orig x)"
  using monitored_text [OF assms] by (auto simp: text_inv_def patched_def)

theorem traps_armed_witness:
  "\<exists>m. monitored (\<lambda>_. 0x90) demo_text True m \<and> return_address m = 0x9090909090909090 \<and>
     mon_text m 0x9090909090909090 = 0xCC \<and> mon_text m 0x1000 = 0x90 \<and> mon_text m 0x1010 = 0xCC"
proof -
  obtain m where m: "monitored (\<lambda>_. 0x90) demo_text True m" "return_address m = 0x9090909090909090" "cur_bp m = Some 0"
    "map entry_address (g_breakpoints m) = [0x1000, 0x1010, 0x1020, 0x1030]"
    by (rule exE [OF demo_call], elim conjE, rule that)
  have "entries m = {0x1000, 0x1010, 0x1020, 0x1030}" using arg_cong [OF m(4), of set] by (simp add: entries_def)
  moreover have "entry_address (g_breakpoints m ! 0) = 0x1000" using m(4) by (cases "g_breakpoints m") auto
  ultimately have "expected_traps m = {0x9090909090909090, 0x1010, 0x1020, 0x1030}"
    by (simp add: expected_traps_def m(2,3))
  moreover have "{0x9090909090909090, 0x1000, 0x1010} \<subseteq> demo_text" by (simp add: demo_text_def window_def)
  ultimately show ?thesis using traps_armed [OF m(1)] m(1,2) by (intro exI [of _ m]) simp
qed

lemma step_child:
  "new_process ev \<Longrightarrow> g_signo m = 0 \<Longrightarrow> main_step ev m = Return (True, child_left ev (main_wait ev m))"
  by (simp add: main_step_def main_status_def main_stop_def new_process_def stopped_by_def Let_def SIGALRM_def)


definition stop_event :: event where
  "stop_event = trap_event\<lparr>ev_pid := 8, ev_status := 0x137f\<rparr>"

lemma stop_event_new: "new_process stop_event"
  by (simp add: new_process_def stopped_by_def stop_event_def trap_event_def WIFSTOPPED_def WSTOPSIG_def SIGSTOP_def
      proc_task_check_def atoi_def is_space_def digits_value_def is_digit_def saturate_long_def int_of_long_def)


text \<open>Fact (vfork_disarms): a child made by \<open>vfork\<close> shares the target's memory, so detaching it
  removes the traps from the target itself: afterwards, outside a call, no allocation
  function has a trap, and every later call goes unseen.\<close>

theorem vfork_disarms:
  assumes "monitored orig X own m" and new: "new_process ev" and "g_signo m = 0"
    and "tspace (tgt m) (ev_pid ev) = tspace (tgt m) (g_target_pid m)"
    and "return_address m = 0"
  shows "\<exists>m'. main_step ev m = Return (True, m') \<and> (\<forall>x \<in> X. mon_text m' x = orig x)"
proof -
  let ?m = "main_wait ev m"
  from monitored_text [OF assms(1)] obtain T where inv: "text_inv orig X ?m T" by auto
  have stop: "tstop (tgt ?m) (ev_pid ev)" using new by (simp add: new_process_def stopped_by_def main_wait_stopped)
  from cleanup_text [OF inv stop] assms(4) have "text_inv orig X (child_left ev ?m) (T - entries ?m)" by auto
  moreover have "T - entries ?m = {}" using inv assms(5) by (auto simp: text_inv_def return_traps_def)
  ultimately show ?thesis using step_child [OF new assms(3)]
    by (intro exI [of _ "child_left ev ?m"]) (auto simp: text_inv_def patched_def)
qed

theorem vfork_disarms_witness:
  "\<exists>m m'. monitored (\<lambda>_. 0x90) demo_text True m \<and> mon_text m 0x1000 = 0xCC \<and>
     main_step stop_event m = Return (True, m') \<and> mon_text m' 0x1000 = 0x90"
proof -
  obtain m0 where m0: "monitored (\<lambda>_. 0x90) demo_text True m0" "return_address m0 = 0"
    "map entry_address (g_breakpoints m0) = [0x1000, 0x1010, 0x1020, 0x1030]" "g_target_pid m0 = 7" "g_signo m0 = 0"
    by (rule exE [OF demo_start], elim conjE, rule that)
  define m where "m = m0\<lparr>tgt := (tgt m0)\<lparr>tspace := (\<lambda>_. 0), tmem := (\<lambda>_. mon_text m0)\<rparr>\<rparr>"
  have m: "monitored (\<lambda>_. 0x90) demo_text True m"
    unfolding m_def by (rule monitored.run [OF m0(1)]) (simp add: mon_text_def space_of_def m0(4))
  have x: "0x1000 \<in> demo_text" by (simp add: demo_text_def window_def)
  have "0x1000 \<in> entries m" using arg_cong [OF m0(3), of set] by (simp add: entries_def m_def)
  moreover have "expected_traps m = entries m" using m0(2) by (simp add: expected_traps_def m_def split: option.split)
  ultimately have t: "mon_text m 0x1000 = 0xCC"
    using monitored_text [OF m] x by (auto simp: text_inv_def patched_def)
  have "g_signo m = 0" "tspace (tgt m) (ev_pid stop_event) = tspace (tgt m) (g_target_pid m)" "return_address m = 0"
    by (simp_all add: m_def m0)
  from vfork_disarms [OF m stop_event_new this] obtain m' where
    "main_step stop_event m = Return (True, m')" "\<forall>x \<in> demo_text. mon_text m' x = 0x90" by blast
  with m t x show ?thesis by (intro exI [of _ m] exI [of _ m']) simp
qed

end
