(* ===== verification/Monitor_Calls.thy ===== *)
theory Monitor_Calls
  imports Monitor_Run
begin

text \<open>
  What the monitoring loop records: a call of an allocation function, from the stop at its
  entry to the stop at its return, runs the function's handler on the arguments and the
  result; every iteration ends, with the tracker consistent or with the program, when it cannot open
  the directory of threads.
\<close>

section \<open>The tracker across iterations\<close>

lemma memblock_expire_tracking:
  assumes t: "tracking st now A E L C" and now: "now \<le> now'"
  shows "\<exists>r st' k. memblock_expire now' ex ml cl st = Return (r, st') \<and>
     tracking st' now' (drop k A) (E @ take k A) L C \<and> same_blocks st' st"
proof -
  from t have inv: "trk_inv st A E L C" and time: "trk_time st A E now'"
    using trk_time_mono [OF _ now] by (auto simp: tracking_def)
  have hd: "lnext (mb_list st) (LHead Active) = hd (map LNode A @ [LHead Active])"
    using inv by (auto simp: trk_inv_def trk_struct_def is_list_next_head)
  from memblock_expire_loop_spec [OF inv, of now' ex ml cl] obtain r st' k where
    "memblock_expire_loop now' ex ml cl (hd (map LNode A @ [LHead Active]))
      (lnext (mb_list st) (hd (map LNode A @ [LHead Active]))) st = Some (r, st')"
    and k: "trk_inv st' (drop k A) (E @ take k A) L C" "same_blocks st' st" by blast
  then have "memblock_expire now' ex ml cl st = Return (r, st')" by (simp add: memblock_expire_def hd Let_def)
  moreover have "trk_time st' (drop k A) (E @ take k A) now'"
    using time k(2) by (simp add: trk_time_def same_blocks_def)
  ultimately show ?thesis using k by (auto simp: tracking_def)
qed

lemma main_expire_tracking:
  assumes "tracking (trkr m) now A E L C" "now \<le> ev_now ev"
  shows "\<exists>b m' A' E'. main_expire ev m = Return (b, m') \<and> tracking (trkr m') (ev_now ev) A' E' L C \<and>
    same_blocks (trkr m') (trkr m)"
proof -
  from memblock_expire_tracking [OF assms, of "memory_expire (mopts m)" "memblock_limit (mopts m)" "callstack_limit (mopts m)"]
  obtain r st' k where e: "memblock_expire (ev_now ev) (memory_expire (mopts m)) (memblock_limit (mopts m)) (callstack_limit (mopts m)) (trkr m) = Return (r, st')"
    "tracking st' (ev_now ev) (drop k A) (E @ take k A) L C" "same_blocks st' (trkr m)" by blast
  define m' where "m' = (if r < 0 then m\<lparr>trkr := st'\<rparr>
    else m\<lparr>trkr := st', alarms := alarms m @ [r], tgt := ptrace_continue (ev_pid ev) 0 (tgt m)\<rparr>)"
  have "main_expire ev m = Return (\<not> r < 0, m')" "trkr m' = st'"
    using e(1) by (simp_all add: main_expire_def Let_def m'_def)
  with e(2,3) show ?thesis by blast
qed

text \<open>What an iteration relies on: fresh structures, enough memory for call stacks, time that
  does not run backwards, room for another held thread, and a call in progress whose
  breakpoint is known.\<close>

definition event_ok :: "int \<Rightarrow> nat list \<Rightarrow> nat list \<Rightarrow> event \<Rightarrow> bool" where
  "event_ok now L C ev \<longleftrightarrow> he_fresh (ev_he ev) L C \<and> ce_malloc (he_ce (ev_he ev)) \<noteq> None \<and>
     now \<le> he_delete (ev_he ev) \<and> he_delete (ev_he ev) \<le> he_new (ev_he ev) \<and> he_new (ev_he ev) \<le> ev_now ev"

definition loop_ok :: "mon \<Rightarrow> event \<Rightarrow> bool" where
  "loop_ok m ev \<longleftrightarrow> length (hold_threads m) < HOLD_MAX \<and> (return_address m \<noteq> 0 \<longrightarrow> cur_bp m \<noteq> None) \<and>
     rip (regs_of m ev) \<noteq> 1"

definition books :: "trk \<Rightarrow> int \<Rightarrow> bool" where
  "books st now \<longleftrightarrow> (\<exists>A E L C. tracking st now A E L C)"

lemma booksI: "tracking st now A E L C \<Longrightarrow> now \<le> now' \<Longrightarrow> books st now'"
  unfolding books_def tracking_def using trk_time_mono by blast

definition entry_he :: "event \<Rightarrow> breakpoint_s \<Rightarrow> henv" where
  "entry_he ev bp = (ev_he ev)\<lparr>he_ce := (he_ce (ev_he ev))\<lparr>ce_entry := entry_address bp\<rparr>\<rparr>"

lemma main_return_eq:
  assumes "cur_bp m = Some i"
  shows "main_return ev regs m = run_bind (call_handler (handler (g_breakpoints m ! i)) (entry_he ev (g_breakpoints m ! i))
      (rax regs) (arg1 m) (arg2 m) (trkr m)) (\<lambda>(r, st). if r \<noteq> 0 then Return (False, m\<lparr>return_address := 0, trkr := st\<rparr>)
        else main_expire ev (wake_one (m\<lparr>return_address := 0, trkr := st\<rparr>)))"
  using assms by (simp add: main_return_def Let_def entry_he_def call_return_value_x86_64_def)

lemma wake_one_fields [simp]:
  "trkr (wake_one m) = trkr m" "return_address (wake_one m) = return_address m" "mopts (wake_one m) = mopts m"
  "g_breakpoints (wake_one m) = g_breakpoints m" "cur_bp (wake_one m) = cur_bp m"
  by (simp_all add: wake_one_def)

lemma main_return_tracking:
  assumes t: "tracking (trkr m) now A E L C" and ev: "event_ok now L C ev" and i: "cur_bp m = Some i"
  shows "\<exists>b m'. main_return ev regs m = Return (b, m') \<and> books (trkr m') (ev_now ev)"
proof -
  let ?bp = "g_breakpoints m ! i"
  have he: "he_fresh (entry_he ev ?bp) L C" "now \<le> he_delete (entry_he ev ?bp)"
    "he_delete (entry_he ev ?bp) \<le> he_new (entry_he ev ?bp)" "ce_malloc (he_ce (entry_he ev ?bp)) \<noteq> None"
    "he_new (entry_he ev ?bp) \<le> ev_now ev"
    using ev by (simp_all add: event_ok_def entry_he_def he_fresh_def)
  from handlers_keep_invariant [OF t he(1-3), of "handler ?bp" "rax regs" "arg1 m" "arg2 m"] he(4)
  obtain r st A' E' L' C' where h: "call_handler (handler ?bp) (entry_he ev ?bp) (rax regs) (arg1 m) (arg2 m) (trkr m) = Return (r, st)"
    "tracking st (he_new (entry_he ev ?bp)) A' E' L' C'" by auto
  show ?thesis
  proof (cases "r = 0")
    case True
    have "tracking (trkr (wake_one (m\<lparr>return_address := 0, trkr := st\<rparr>))) (he_new (entry_he ev ?bp)) A' E' L' C'"
      using h(2) by simp
    from main_expire_tracking [OF this he(5)] obtain b m' A'' E'' where
      e: "main_expire ev (wake_one (m\<lparr>return_address := 0, trkr := st\<rparr>)) = Return (b, m')"
      "tracking (trkr m') (ev_now ev) A'' E'' L' C'" by blast
    from booksI [OF e(2) order_refl] e(1) True h(1) show ?thesis by (simp add: main_return_eq [OF i])
  next
    case False
    with h booksI [OF h(2) he(5)] show ?thesis by (simp add: main_return_eq [OF i] ex_bool_eq)
  qed
qed

lemma main_leave_frame:
  assumes "return_address m \<noteq> 0 \<Longrightarrow> cur_bp m \<noteq> None"
  shows "\<exists>t. main_leave p m = Return (m\<lparr>tgt := t\<rparr>)"
proof (cases "return_address m = 0")
  case True
  then show ?thesis by (intro exI [of _ "tgt m"]) (simp add: main_leave_def)
next
  case False
  with assms obtain i where "cur_bp m = Some i" by auto
  with False show ?thesis by (auto simp: main_leave_def Let_def)
qed

lemma rewound_tgt: "(rewound m ev)\<lparr>tgt := t\<rparr> = m\<lparr>tgt := t\<rparr>"
  by (simp add: rewound_def main_wait_def)

text \<open>The program looks for the thread of a stop by SIGSTOP and cannot open the directory.\<close>

definition task_check_fails :: "event \<Rightarrow> mon \<Rightarrow> bool" where
  "task_check_fails ev m \<longleftrightarrow> stopped_by ev SIGSTOP \<and> g_signo m = 0 \<and> task_dir (ev_proc ev) = None"

lemma step_no_trap:
  assumes "\<not> trap_stop ev" and "\<not> task_check_fails ev m"
  shows "(\<exists>b m'. main_step ev m = Return (b, m') \<and> trkr m' = trkr m) \<or>
    main_step ev m = main_expire ev ((main_wait ev m)\<lparr>g_signo := 0\<rparr>)"
proof (cases "stopped_by ev SIGSTOP")
  case True
  then have stop: "main_step ev m = main_stop ev (main_wait ev m)"
    by (simp add: main_step_def main_status_def stopped_by_def Let_def)
  show ?thesis
  proof (cases "g_signo m = 0")
    case zero: True
    with True assms(2) obtain es where "task_dir (ev_proc ev) = Some es" by (auto simp: task_check_fails_def)
    then show ?thesis by (simp add: stop main_stop_def zero SIGALRM_def proc_task_check_def Let_def ex_bool_eq)
  next
    case False
    then show ?thesis by (simp add: stop main_stop_def Let_def ex_bool_eq)
  qed
next
  case False
  with assms(1) show ?thesis
    by (simp add: main_step_def main_status_def Let_def trap_stop_def stopped_by_def ex_bool_eq)
qed

text \<open>C6 (iteration_total): an iteration of the loop, on any event, either ends the program with status 3, and
  does so exactly when it looks up the thread of a stop by SIGSTOP and cannot open \<open>/proc/pid/task\<close>; or it ends
  without a crash and leaves the tracker's structures and books consistent. This holds when memory
  is available for a call stack, the clock does not run backwards, less than 1000 threads are held, a call in progress
  has its breakpoint, and no thread traps at address 0.\<close>

theorem iteration_total:
  assumes t: "tracking (trkr m) now A E L C" and ev: "event_ok now L C ev" and ok: "loop_ok m ev"
  shows "if task_check_fails ev m then main_step ev m = Exit 3
    else \<exists>b m'. main_step ev m = Return (b, m') \<and> books (trkr m') (ev_now ev)"
proof (cases "task_check_fails ev m")
  case True
  then show ?thesis
    by (simp add: task_check_fails_def main_step_def main_status_def main_stop_def stopped_by_def proc_task_check_def Let_def SIGALRM_def)
next
  case nofail: False
  have "\<exists>b m'. main_step ev m = Return (b, m') \<and> books (trkr m') (ev_now ev)"
  proof -
  have now: "now \<le> ev_now ev" using ev by (simp add: event_ok_def)
  have same: "books (trkr m) (ev_now ev)" using booksI [OF t now] .
  have ex: "\<exists>b m'. main_expire ev m1 = Return (b, m') \<and> books (trkr m') (ev_now ev)" if "trkr m1 = trkr m" for m1
    using main_expire_tracking [of m1 now A E L C ev] t now that booksI [OF _ order_refl] by metis
  show ?thesis
  proof (cases "trap_stop ev")
    case False
    from step_no_trap [OF this nofail] same ex [of "(main_wait ev m)\<lparr>g_signo := 0\<rparr>"] show ?thesis by auto
  next
    case trap: True
    show ?thesis
    proof (cases "return_address m \<noteq> 0 \<and> last_thread m \<noteq> ev_pid ev")
      case True
      with ok same show ?thesis by (simp add: step_trap [OF trap] loop_ok_def ex_bool_eq)
    next
      case False
      obtain t1 where leave: "main_leave (ev_pid ev) (rewound m ev) = Return (m\<lparr>tgt := t1\<rparr>)"
        using main_leave_frame [of "rewound m ev" "ev_pid ev"] ok by (auto simp: rewound_tgt loop_ok_def)
      have stop: "main_step ev m = main_dispatch ev (rip (unwound m ev)) (unwound m ev) (m\<lparr>tgt := t1\<rparr>)"
        using False leave unfolding step_trap [OF trap] by auto
      show ?thesis
      proof (cases "rip (unwound m ev) = return_address m")
        case True
        have "rip (unwound m ev) \<noteq> 0" using ok by (simp add: unwound_def loop_ok_def)
        with True ok obtain i where "cur_bp (m\<lparr>tgt := t1\<rparr>) = Some i" by (auto simp: loop_ok_def)
        from main_return_tracking [OF _ ev this] t True show ?thesis by (simp add: stop main_dispatch_def)
      next
        case False
        with same ex show ?thesis
          by (cases "breakpoint_by_entry (rip (unwound m ev)) (g_breakpoints m)")
             (simp_all add: stop main_dispatch_def main_entry_def Let_def ex_bool_eq)
      qed
    qed
  qed
qed
  then show ?thesis using nofail by simp
qed

text \<open>For the examples: a monitor that has seen \<open>one_block\<close>.\<close>

definition demo_mon :: mon where
  "demo_mon = \<lparr>tgt = demo_target, g_breakpoints =
       [\<lparr>bp_name = ''malloc'', handler = Bph_malloc, entry_address = 0x1000, entry_code = 0x90\<rparr>],
     trkr = one_block, cur_bp = None, return_address = 0, return_code = 0, arg1 = 0, arg2 = 0, last_thread = 0,
     hold_threads = [], g_signo = 0, g_target_pid = 7, mopts = default_opts, begin_time = 100, alarms = []\<rparr>"

lemma demo_mon_tracking: "tracking (trkr demo_mon) 100 [7] [] [7] [3]"
  by (simp add: demo_mon_def one_block_tracking)

lemma trap_event_ok: "event_ok 100 [7] [3] trap_event"
  using demo_he_fresh by (simp add: event_ok_def trap_event_def) (simp add: demo_he_def demo_ce_def)

theorem iteration_total_witness:
  "event_ok 100 [7] [3] trap_event \<and> \<not> task_check_fails trap_event demo_mon \<and> (\<exists>b m'. main_step trap_event demo_mon = Return (b, m') \<and> books (trkr m') 105)"
proof -
  have "loop_ok demo_mon trap_event"
    by (simp add: loop_ok_def demo_mon_def HOLD_MAX_def regs_of_def demo_target_def)
  moreover have "\<not> task_check_fails trap_event demo_mon" "ev_now trap_event = 105"
    by (simp_all add: task_check_fails_def trap_event_def)
  ultimately show ?thesis using iteration_total [OF demo_mon_tracking trap_event_ok] trap_event_ok by simp
qed

section \<open>A call of an allocation function\<close>

text \<open>The stop at the entry, a run of the target, and the stop of the same thread at the return
  address: the handler runs on the result and on the arguments of the entry.\<close>

lemma call_runs_handler:
  assumes "trap_stop ev1" "return_address m = 0" "rip (unwound m ev1) \<noteq> 0"
    and i: "breakpoint_by_entry (rip (unwound m ev1)) (g_breakpoints m) = Some i"
    and s1: "main_step ev1 m = Return (True, m1)" and ra: "return_address m1 \<noteq> 0"
    and "trap_stop ev2" "ev_pid ev2 = ev_pid ev1" "rip (unwound (m1\<lparr>tgt := t\<rparr>) ev2) = return_address m1"
  shows "\<exists>nxt t'. memblock_expire (ev_now ev1) (memory_expire (mopts m)) (memblock_limit (mopts m))
       (callstack_limit (mopts m)) (trkr m) = Return (nxt, trkr m1) \<and>
    main_step ev2 (m1\<lparr>tgt := t\<rparr>) = run_bind (call_handler (handler (g_breakpoints m ! i))
       (entry_he ev2 (g_breakpoints m ! i)) (rax (regs_of (m1\<lparr>tgt := t\<rparr>) ev2)) (rdi (regs_of m ev1)) (rsi (regs_of m ev1)) (trkr m1))
      (\<lambda>(r, st). if r \<noteq> 0 then Return (False, m1\<lparr>tgt := t', return_address := 0, trkr := st\<rparr>)
        else main_expire ev2 (wake_one (m1\<lparr>tgt := t', return_address := 0, trkr := st\<rparr>)))"
proof -
  have e: "main_entry ev1 (unwound m ev1) i (rewound m ev1) = Return (True, m1)"
    using s1 step_entry [OF assms(1-3) i] by simp
  note f = main_entry_fields [OF e]
  have f': "cur_bp m1 = Some i" "last_thread m1 = ev_pid ev1" "g_breakpoints m1 = g_breakpoints m"
    "arg1 m1 = rdi (regs_of m ev1)" "arg2 m1 = rsi (regs_of m ev1)"
    using f(1-5) by (simp_all add: unwound_def)
  have "\<exists>t'. main_step ev2 (m1\<lparr>tgt := t\<rparr>) = main_return ev2 (unwound (m1\<lparr>tgt := t\<rparr>) ev2) (m1\<lparr>tgt := t\<rparr>\<lparr>tgt := t'\<rparr>)"
    by (rule step_return [where i = i]) (use assms f' ra in simp_all)
  then obtain t' where "main_step ev2 (m1\<lparr>tgt := t\<rparr>) = main_return ev2 (unwound (m1\<lparr>tgt := t\<rparr>) ev2) (m1\<lparr>tgt := t'\<rparr>)"
    by auto
  moreover have "cur_bp (m1\<lparr>tgt := t'\<rparr>) = Some i" using f' by simp
  ultimately show ?thesis
    using f(12) by (auto simp: main_return_eq f' unwound_def intro!: exI [of _ t'])
qed

text \<open>A stop of thread \<open>ev_pid ev1\<close> at the entry of API function \<open>i\<close>, after which the loop goes on
  in state \<open>m1\<close>, and its stop at the return address when the target is \<open>t\<close>.\<close>

definition api_call :: "mon \<Rightarrow> event \<Rightarrow> nat \<Rightarrow> mon \<Rightarrow> target64 \<Rightarrow> event \<Rightarrow> bool" where
  "api_call m ev1 i m1 t ev2 \<longleftrightarrow> trap_stop ev1 \<and> return_address m = 0 \<and> rip (unwound m ev1) \<noteq> 0 \<and>
     breakpoint_by_entry (rip (unwound m ev1)) (g_breakpoints m) = Some i \<and> main_step ev1 m = Return (True, m1) \<and>
     return_address m1 \<noteq> 0 \<and> trap_stop ev2 \<and> ev_pid ev2 = ev_pid ev1 \<and>
     rip (unwound (m1\<lparr>tgt := t\<rparr>) ev2) = return_address m1"

lemma api_call_entry:
  assumes c: "api_call m ev1 i m1 t ev2" and tr: "tracking (trkr m) now A E L C" and now: "now \<le> ev_now ev1"
  shows "\<exists>A' E'. tracking (trkr m1) (ev_now ev1) A' E' L C \<and> same_blocks (trkr m1) (trkr m)"
proof -
  obtain nxt where "memblock_expire (ev_now ev1) (memory_expire (mopts m)) (memblock_limit (mopts m))
       (callstack_limit (mopts m)) (trkr m) = Return (nxt, trkr m1)"
    using c call_runs_handler [of ev1 m i m1 ev2 t] unfolding api_call_def by blast
  with memblock_expire_tracking [OF tr now, of "memory_expire (mopts m)" "memblock_limit (mopts m)" "callstack_limit (mopts m)"]
  show ?thesis by auto
qed

lemma api_call_return:
  assumes c: "api_call m ev1 i m1 t ev2"
    and h: "call_handler (handler (g_breakpoints m ! i)) (entry_he ev2 (g_breakpoints m ! i))
      (rax (regs_of (m1\<lparr>tgt := t\<rparr>) ev2)) (rdi (regs_of m ev1)) (rsi (regs_of m ev1)) (trkr m1) = Return (0, st)"
    and tr: "tracking st now A E L C" and now: "now \<le> ev_now ev2"
  shows "\<exists>b m2 A' E'. main_step ev2 (m1\<lparr>tgt := t\<rparr>) = Return (b, m2) \<and> return_address m2 = 0 \<and>
     tracking (trkr m2) (ev_now ev2) A' E' L C \<and> same_blocks (trkr m2) st"
proof -
  obtain t' where s: "main_step ev2 (m1\<lparr>tgt := t\<rparr>) = main_expire ev2 (wake_one (m1\<lparr>tgt := t', return_address := 0, trkr := st\<rparr>))"
    using c call_runs_handler [of ev1 m i m1 ev2 t] h unfolding api_call_def by auto
  have "tracking (trkr (wake_one (m1\<lparr>tgt := t', return_address := 0, trkr := st\<rparr>))) now A E L C" using tr by simp
  from main_expire_tracking [OF this now] obtain b m2 A' E' where
    m2: "main_expire ev2 (wake_one (m1\<lparr>tgt := t', return_address := 0, trkr := st\<rparr>)) = Return (b, m2)"
    "tracking (trkr m2) (ev_now ev2) A' E' L C" "same_blocks (trkr m2) st" by auto
  from main_expire_frame [OF m2(1)] have "return_address m2 = 0" by auto
  with s m2 show ?thesis by auto
qed

text \<open>C3 (malloc_call_tracked): a call of \<open>malloc\<close> that the target makes and that returns a block
  is recorded: after the stops at its entry and at its return, a search for the returned
  address finds a block with the size that was the argument of the call, created at the
  time of the return, and the loop is idle again.\<close>

theorem malloc_call_tracked:
  assumes c: "api_call m ev1 i m1 t ev2" and h: "handler (g_breakpoints m ! i) = Bph_malloc"
    and tr: "tracking (trkr m) now A E L C" and now: "now \<le> ev_now ev1"
    and ev2: "event_ok (ev_now ev1) L C ev2" and k: "he_malloc (ev_he ev2) = Some k"
    and p: "rax (regs_of (m1\<lparr>tgt := t\<rparr>) ev2) \<noteq> 0"
  shows "\<exists>b m2. main_step ev2 (m1\<lparr>tgt := t\<rparr>) = Return (b, m2) \<and> return_address m2 = 0 \<and>
     memblock_search (rax (regs_of (m1\<lparr>tgt := t\<rparr>) ev2)) (trkr m2) = Return (Some k) \<and>
     mb_size (mb_mem (trkr m2) k) = rdi (regs_of m ev1) \<and> mb_create (mb_mem (trkr m2) k) = he_new (ev_he ev2)"
proof -
  let ?bp = "g_breakpoints m ! i" and ?p = "rax (regs_of (m1\<lparr>tgt := t\<rparr>) ev2)" and ?sz = "rdi (regs_of m ev1)"
  from api_call_entry [OF c tr now] obtain A1 E1 where t1: "tracking (trkr m1) (ev_now ev1) A1 E1 L C" by blast
  have he: "he_fresh (entry_he ev2 ?bp) L C" "ev_now ev1 \<le> he_new (entry_he ev2 ?bp)" "he_new (entry_he ev2 ?bp) \<le> ev_now ev2"
    "he_new (entry_he ev2 ?bp) = he_new (ev_he ev2)" "he_malloc (entry_he ev2 ?bp) = Some k" "ce_malloc (he_ce (entry_he ev2 ?bp)) \<noteq> None"
    using ev2 k by (simp_all add: event_ok_def entry_he_def he_fresh_def)
  obtain st A2 C2 c' where st: "bph_malloc (entry_he ev2 ?bp) ?p ?sz (rsi (regs_of m ev1)) (trkr m1) = Return (0, st)"
    and t2: "tracking st (he_new (ev_he ev2)) A2 E1 (k # L) C2"
    and b: "mb_mem st k = \<lparr>mb_pointer = ?p, mb_size = ?sz, mb_create = he_new (ev_he ev2), mb_expired = False, mb_callstack = c'\<rparr>"
    using tracking_new_block [OF t1 he(2,1) p he(5,6), of ?sz] by (auto simp: bph_malloc_def he(4))
  from api_call_return [OF c _ t2, of ] h st he(3,4) obtain bb m2 A3 E3 where
    m2: "main_step ev2 (m1\<lparr>tgt := t\<rparr>) = Return (bb, m2)" "return_address m2 = 0"
    "tracking (trkr m2) (ev_now ev2) A3 E3 (k # L) C2" "same_blocks (trkr m2) st" by auto
  have inv: "trk_inv (trkr m2) A3 E3 (k # L) C2" using m2(3) by (simp add: tracking_def)
  from m2 b show ?thesis by (auto simp: memblock_search_find [OF inv] same_blocks_def)
qed

text \<open>An example: thread 7 calls \<open>malloc(24)\<close>, which returns 0x5000.\<close>

definition malloc_mon :: mon where
  "malloc_mon = demo_mon\<lparr>trkr := init_trk env0,
     tgt := demo_target\<lparr>tregs := (\<lambda>_. \<lparr>rsp = 0x7000, rax = 0, rsi = 0, rdi = 24, rip = 0x1001\<rparr>)\<rparr>\<rparr>"

definition return_tgt :: target64 where
  "return_tgt = demo_target\<lparr>tregs := (\<lambda>_. \<lparr>rsp = 0x7008, rax = 0x5000, rsi = 0, rdi = 0, rip = 0x9090909090909091\<rparr>)\<rparr>"

lemma trap_event_stop: "trap_stop trap_event"
  by (simp add: trap_stop_def stopped_by_def trap_event_def WSTOPSIG_def WIFSTOPPED_def SIGTRAP_def ptrace_new_child_def)

lemma demo_api_call:
  assumes m: "tspace (tgt m) = (\<lambda>_. 0)" "tmem (tgt m) = (\<lambda>_ _. 0x90)" "rip (regs_of m trap_event) = 0x1001"
    "rsp (regs_of m trap_event) = 0x7000" "return_address m = 0"
    "g_breakpoints m = [\<lparr>bp_name = n, handler = h, entry_address = 0x1000, entry_code = c\<rparr>]"
    "memblock_expire 105 (memory_expire (mopts m)) (memblock_limit (mopts m)) (callstack_limit (mopts m)) (trkr m) = Return (nxt, st)"
    "0 \<le> nxt"
  shows "\<exists>m1. api_call m trap_event 0 m1 return_tgt trap_event"
proof -
  have un: "rip (unwound m trap_event) = 0x1000" "rsp (unwound m trap_event) = 0x7000"
    using m by (simp_all add: unwound_def)
  have i: "breakpoint_by_entry 0x1000 (g_breakpoints m) = Some 0" by (simp add: breakpoint_by_entry_def m)
  have st: "main_step trap_event m = main_entry trap_event (unwound m trap_event) 0 (rewound m trap_event)"
    by (rule step_entry [OF trap_event_stop]) (simp_all only: un i, simp_all add: m)
  have "ev_now trap_event = 105" by (simp add: trap_event_def)
  with m(7,8) obtain m1 where m1: "main_step trap_event m = Return (True, m1)"
    unfolding st by (simp add: main_entry_def main_expire_def Let_def)
  have "window (0x1000 :: u64) \<inter> window 0x7000 = {}" by (rule window_disjoint) simp_all
  then have w: "window (0x7000 :: u64) \<inter> (- window 0x7000) = {}" "window (0x1000 :: u64) \<subseteq> - window 0x7000" by auto
  have bp: "entry_address (g_breakpoints m ! 0) = 0x1000" "ev_pid trap_event = 7"
    by (simp_all add: m trap_event_def)
  have "peek (space_of 7 (tgt (rewound m trap_event))) 0x7000 = peek (\<lambda>_. 0x90) (0x7000 :: u64)"
    by (rule peek_cong) (simp, simp add: space_of_def m)
  also have "\<dots> = 0x9090909090909090" by (simp add: peek_def upt_rec)
  finally have "return_address m1 = 0x9090909090909090"
    using main_entry_fields(11) [OF m1 [unfolded st]]
    by (simp add: call_return_address_x86_64_def un bp get_data_away(1) [OF w])
       (simp add: get_data_space rewound_stopped [OF trap_event_stop] bp)
  with m1 un i m(5) show ?thesis
    by (intro exI [of _ m1]) (simp add: api_call_def trap_event_stop un, simp add: unwound_def regs_of_def return_tgt_def)
qed

lemma malloc_mon_call: "\<exists>m1. api_call malloc_mon trap_event 0 m1 return_tgt trap_event"
  by (rule demo_api_call [where nxt = 0])
     (simp_all add: malloc_mon_def demo_mon_def demo_target_def regs_of_def memblock_expire_init)

theorem malloc_call_tracked_witness:
  "\<exists>m1 b m2. api_call malloc_mon trap_event 0 m1 return_tgt trap_event \<and>
     main_step trap_event (m1\<lparr>tgt := return_tgt\<rparr>) = Return (b, m2) \<and>
     memblock_search 0x5000 (trkr m2) = Return (Some 9) \<and> mb_size (mb_mem (trkr m2) 9) = 24"
proof -
  from malloc_mon_call obtain m1 where c: "api_call malloc_mon trap_event 0 m1 return_tgt trap_event" by blast
  have tr: "tracking (trkr malloc_mon) 100 [] [] [] []"
    using trk_inv_init by (simp add: malloc_mon_def tracking_def trk_time_def)
  have "handler (g_breakpoints malloc_mon ! 0) = Bph_malloc" "100 \<le> ev_now trap_event"
    "event_ok (ev_now trap_event) [] [] trap_event" "he_malloc (ev_he trap_event) = Some 9"
    by (simp_all add: malloc_mon_def demo_mon_def event_ok_def he_fresh_def trap_event_def demo_he_def demo_ce_def)
  from malloc_call_tracked [OF c this(1) tr this(2-4)] c show ?thesis
    by (auto simp: regs_of_def return_tgt_def malloc_mon_def)
qed

text \<open>C4 (free_call_untracks): a call of \<open>free\<close> by the target takes the block with that address
  out of the tracker: afterwards no record of the address is left (if there was one),
  and every other block is still recorded as before.\<close>

theorem free_call_untracks:
  assumes c: "api_call m ev1 i m1 t ev2" and h: "handler (g_breakpoints m ! i) = Bph_free"
    and tr: "tracking (trkr m) now A E L C" and now: "now \<le> ev_now ev1"
    and ev2: "event_ok (ev_now ev1) L C ev2"
    and found: "memblock_search (rdi (regs_of m ev1)) (trkr m) = Return (Some k)"
    and only: "\<forall>j \<in> set L. mb_pointer (mb_mem (trkr m) j) = rdi (regs_of m ev1) \<longrightarrow> j = k"
  shows "\<exists>b m2. main_step ev2 (m1\<lparr>tgt := t\<rparr>) = Return (b, m2) \<and> return_address m2 = 0 \<and>
     memblock_search (rdi (regs_of m ev1)) (trkr m2) = Return None \<and>
     (\<forall>p. p \<noteq> rdi (regs_of m ev1) \<longrightarrow> memblock_search p (trkr m2) = memblock_search p (trkr m))"
proof -
  let ?p = "rdi (regs_of m ev1)" and ?now = "he_delete (entry_he ev2 (g_breakpoints m ! i))"
  from api_call_entry [OF c tr now] obtain A1 E1 where t1: "tracking (trkr m1) (ev_now ev1) A1 E1 L C"
    and b1: "same_blocks (trkr m1) (trkr m)" by blast
  have i0: "trk_inv (trkr m) A E L C" and i1: "trk_inv (trkr m1) A1 E1 L C" using tr t1 by (simp_all add: tracking_def)
  have s1: "memblock_search q (trkr m1) = memblock_search q (trkr m)" for q
    using b1 by (simp add: memblock_search_find [OF i0] memblock_search_find [OF i1] same_blocks_def)
  let ?st = "memblock_delete ?now (Some k) (trkr m1)"
  have k: "k \<in> set L" "mb_pointer (mb_mem (trkr m) k) = ?p"
    using found by (auto simp: memblock_search_find [OF i0] dest: find_Some_set)
  have "he_delete (ev_he ev2) \<le> ev_now ev2" "ev_now ev1 \<le> ev_now ev2" using ev2 by (simp_all add: event_ok_def)
  then obtain A2 E2 where t2: "tracking ?st (ev_now ev2) A2 E2 (removeAll k L) C"
    using tracking_delete_some [OF t1, of "ev_now ev2" k ?now] k by auto
  have "call_handler (handler (g_breakpoints m ! i)) (entry_he ev2 (g_breakpoints m ! i)) (rax (regs_of (m1\<lparr>tgt := t\<rparr>) ev2))
      ?p (rsi (regs_of m ev1)) (trkr m1) = Return (0, ?st)"
    by (simp add: h bph_free_def s1 found)
  from api_call_return [OF c this t2 order_refl] obtain b m2 A3 E3 where
    m2: "main_step ev2 (m1\<lparr>tgt := t\<rparr>) = Return (b, m2)" "return_address m2 = 0"
    "tracking (trkr m2) (ev_now ev2) A3 E3 (removeAll k L) C" "same_blocks (trkr m2) ?st" by blast
  have i2: "trk_inv (trkr m2) A3 E3 (removeAll k L) C" using m2(3) by (simp add: tracking_def)
  have ptr: "mb_pointer (mb_mem (trkr m2) j) = mb_pointer (mb_mem (trkr m) j)" for j
    using m2(4) b1 by (simp add: same_blocks_def trk_simps)
  have s2: "memblock_search q (trkr m2) = Return (find (\<lambda>j. mb_pointer (mb_mem (trkr m) j) = q) (removeAll k L))" for q
    by (simp add: memblock_search_find [OF i2] ptr)
  have "memblock_search ?p (trkr m2) = Return None" using only by (auto simp: s2 find_None_iff)
  moreover have "memblock_search q (trkr m2) = memblock_search q (trkr m)" if "q \<noteq> ?p" for q
    using that k by (simp add: s2 memblock_search_find [OF i0] find_removeAll)
  ultimately show ?thesis using m2(1,2) by blast
qed

definition free_mon :: mon where
  "free_mon = demo_mon\<lparr>g_breakpoints := [\<lparr>bp_name = ''free'', handler = Bph_free, entry_address = 0x1000, entry_code = 0x90\<rparr>],
     tgt := demo_target\<lparr>tregs := (\<lambda>_. \<lparr>rsp = 0x7000, rax = 0, rsi = 0, rdi = 0x5000, rip = 0x1001\<rparr>)\<rparr>\<rparr>"

lemma free_mon_call: "\<exists>m1. api_call free_mon trap_event 0 m1 return_tgt trap_event"
  by (rule demo_api_call [where nxt = 6])
     (simp_all add: free_mon_def demo_mon_def demo_target_def regs_of_def default_opts_def
       one_block_young int_of_long_def)

theorem free_call_untracks_witness:
  "\<exists>m1 b m2. api_call free_mon trap_event 0 m1 return_tgt trap_event \<and>
     memblock_search 0x5000 (trkr free_mon) = Return (Some 7) \<and>
     main_step trap_event (m1\<lparr>tgt := return_tgt\<rparr>) = Return (b, m2) \<and> memblock_search 0x5000 (trkr m2) = Return None"
proof -
  from free_mon_call obtain m1 where c: "api_call free_mon trap_event 0 m1 return_tgt trap_event" by blast
  have f: "trkr free_mon = one_block" "handler (g_breakpoints free_mon ! 0) = Bph_free" "rdi (regs_of free_mon trap_event) = 0x5000"
    by (simp_all add: free_mon_def demo_mon_def regs_of_def)
  have tr: "tracking (trkr free_mon) 100 [7] [] [7] [3]" "100 \<le> ev_now trap_event"
    "event_ok (ev_now trap_event) [7] [3] trap_event"
    using one_block_tracking demo_he_fresh f by (simp_all add: event_ok_def trap_event_def) (simp add: demo_he_def demo_ce_def)
  from free_call_untracks [OF c f(2) tr, of 7] c f one_block_search show ?thesis by auto
qed

end
