(* ===== verification/Monitor_Threads.thy ===== *)
theory Monitor_Threads
  imports Monitor_Calls
begin

text \<open>
  The loop of \<open>memleax.c\<close> seen from the target's threads: what happens to a stopped thread,
  to its signals, and to threads that stop while another one is in a call; then the
  options and the end of the program.
\<close>

section \<open>Stopped threads\<close>

lemma tlog_frames [simp]:
  "tlog (ptrace_set_data p a d t) = tlog t" "tlog (set_breakpoint_x86_64 p a d t) = tlog t"
  "tlog (ptrace_set_regs p r t) = tlog t" "tlog (ptrace_continue p s t) = tlog t @ [Continue p s]"
  "tlog (ptrace_detach p s t) = tlog t @ [Detach p s]"
  by (simp_all add: ptrace_set_data_def set_breakpoint_x86_64_def ptrace_set_regs_def ptrace_continue_def ptrace_detach_def)

lemma tlog_cleanup [simp]: "tlog (breakpoint_cleanup bps p t) = tlog t"
  by (induction bps arbitrary: t) (simp_all add: breakpoint_cleanup_def)

text \<open>A thread is held when it traps while another thread is in a call; a call is seen to end when its thread traps
  at the return address.\<close>

definition held :: "mon \<Rightarrow> event \<Rightarrow> bool" where
  "held m ev \<longleftrightarrow> trap_stop ev \<and> return_address m \<noteq> 0 \<and> last_thread m \<noteq> ev_pid ev"

definition at_return :: "mon \<Rightarrow> event \<Rightarrow> bool" where
  "at_return m ev \<longleftrightarrow> trap_stop ev \<and> \<not> held m ev \<and> rip (unwound m ev) = return_address m"



text \<open>What an iteration does to the threads, from state \<open>m\<close> on: the requests for the woken threads \<open>ws\<close> and then
  for the stopped one, none of which is stopped afterwards, and the list of held threads.\<close>

definition resumes :: "event \<Rightarrow> mon \<Rightarrow> pid list \<Rightarrow> request \<Rightarrow> pid list \<Rightarrow> mon \<Rightarrow> bool" where
  "resumes ev m ws r hs m' \<longleftrightarrow> tlog (tgt m') = tlog (tgt m) @ map (\<lambda>q. Continue q 0) ws @ [r] \<and>
     (\<forall>q. tstop (tgt m') q \<longleftrightarrow> tstop (tgt m) q \<and> q \<noteq> ev_pid ev \<and> q \<notin> set ws) \<and> hold_threads m' = hs"

lemma main_expire_resumes:
  assumes "main_expire ev m = Return (True, m')"
  shows "resumes ev m [] (Continue (ev_pid ev) 0) (hold_threads m) m'"
  using assms by (auto simp: resumes_def main_expire_def run_bind_Return Let_def split: if_splits)

lemma main_return_resumes:
  assumes "main_return ev regs m = Return (True, m')"
  shows "resumes ev m (if hold_threads m = [] then [] else [last (hold_threads m)]) (Continue (ev_pid ev) 0)
    (butlast (hold_threads m)) m'"
proof -
  from assms obtain i where i: "cur_bp m = Some i" by (auto simp: main_return_def split: option.splits)
  from assms obtain st where e: "main_expire ev (wake_one (m\<lparr>return_address := 0, trkr := st\<rparr>)) = Return (True, m')"
    by (auto simp: main_return_eq [OF i] run_bind_Return split: if_splits)
  from main_expire_resumes [OF e] show ?thesis
    by (cases "hold_threads m = []") (auto simp: resumes_def wake_one_def)
qed


lemma main_leave_tlog:
  "main_leave p m = Return m1 \<Longrightarrow> tlog (tgt m1) = tlog (tgt m) \<and> return_address m1 = return_address m"
  by (auto simp: main_leave_def Let_def split: if_splits option.splits)

lemma step_trap_dispatch:
  assumes trap: "trap_stop ev" and "\<not> held m ev" and s: "main_step ev m = Return (True, m')"
  obtains m1 where "main_dispatch ev (rip (unwound m ev)) (unwound m ev) m1 = Return (True, m')"
    "tlog (tgt m1) = tlog (tgt m)" "tstop (tgt m1) = (tstop (tgt m))(ev_pid ev := True)" "hold_threads m1 = hold_threads m"
    "return_address m1 = return_address m"
proof -
  from assms obtain m1 where leave: "main_leave (ev_pid ev) (rewound m ev) = Return m1"
    and d: "main_dispatch ev (rip (unwound m ev)) (unwound m ev) m1 = Return (True, m')"
    by (auto simp: step_trap [OF trap] held_def run_bind_Return split: if_splits)
  have "tlog (tgt (rewound m ev)) = tlog (tgt m)" by (simp add: rewound_def)
  with that [OF d] main_leave_tlog [OF leave] main_leave_stop [OF leave] rewound_stopped [OF trap, of m] show thesis by simp
qed









text \<open>Fact (held_after_return): one return wakes one thread. If several were held, the others stay stopped though no
  call is in progress any more, until other calls return.\<close>

theorem held_after_return:
  assumes s: "main_step ev m = Return (True, m')" and ret: "at_return m ev" and two: "2 \<le> length (hold_threads m)"
  shows "hold_threads m' = butlast (hold_threads m) \<and> hold_threads m' \<noteq> [] \<and> return_address m' = 0"
proof -
  have trap: "trap_stop ev" "\<not> held m ev" using ret by (simp_all add: at_return_def)
  from trap s obtain m1 where d: "main_dispatch ev (rip (unwound m ev)) (unwound m ev) m1 = Return (True, m')"
    and m1: "hold_threads m1 = hold_threads m" "return_address m1 = return_address m" by (rule step_trap_dispatch)
  with ret have r: "main_return ev (unwound m ev) m1 = Return (True, m')" by (simp add: main_dispatch_def at_return_def)
  then obtain i where i: "cur_bp m1 = Some i" by (auto simp: main_return_def split: option.splits)
  from r obtain st where e: "main_expire ev (wake_one (m1\<lparr>return_address := 0, trkr := st\<rparr>)) = Return (True, m')"
    by (auto simp: main_return_eq [OF i] run_bind_Return split: if_splits)
  have "return_address m' = 0" using main_expire_frame [OF e] by auto
  moreover have "hold_threads m' = butlast (hold_threads m)" using main_return_resumes [OF r] m1(1) by (simp add: resumes_def)
  moreover have "butlast (hold_threads m) \<noteq> []" using two by (cases "hold_threads m" rule: rev_cases) auto
  ultimately show ?thesis by simp
qed

section \<open>Limits of the loop\<close>

text \<open>The array of held threads has 1000 elements and no check: the next thread is stored past
  its end.\<close>

theorem hold_overflow:
  assumes "trap_stop ev" "return_address m \<noteq> 0" "last_thread m \<noteq> ev_pid ev" "length (hold_threads m) = 1000"
  shows "main_step ev m = Crash BufferOverflow"
  using assms by (simp add: step_trap HOLD_MAX_def)

text \<open>Fact (stray_trap_breaks_call): if a thread in a call stops by a SIGTRAP that is neither at
  the return address nor at an entry and not at a trap byte, the loop forgets the
  breakpoint but not the call: the next SIGTRAP of this thread dereferences NULL, and
  every other thread that stops by SIGTRAP is held, with nothing to wake it up.\<close>

theorem stray_trap_breaks_call:
  assumes s: "trap_stop ev" "return_address m \<noteq> 0" "last_thread m = ev_pid ev" "cur_bp m = Some i"
    and stray: "rip (unwound m ev) \<noteq> return_address m" "rip (unwound m ev) \<notin> entry_address ` set (g_breakpoints m)"
    and s1: "main_step ev m = Return (True, m1)"
  shows "return_address m1 \<noteq> 0 \<and> cur_bp m1 = None \<and>
    (\<forall>t ev'. trap_stop ev' \<longrightarrow> main_step ev' (m1\<lparr>tgt := t\<rparr>) =
       (if ev_pid ev' = ev_pid ev then Crash NullDeref
        else if length (hold_threads m) < HOLD_MAX
             then Return (True, (rewound (m1\<lparr>tgt := t\<rparr>) ev')\<lparr>hold_threads := hold_threads m @ [ev_pid ev']\<rparr>)
             else Crash BufferOverflow))"
proof -
  have none: "breakpoint_by_entry (rip (unwound m ev)) (g_breakpoints m) = None"
    using stray(2) by (simp add: breakpoint_by_entry_None)
  obtain t1 where "main_leave (ev_pid ev) (rewound m ev) = Return (m\<lparr>tgt := t1\<rparr>)"
    using main_leave_frame [of "rewound m ev" "ev_pid ev"] s by (auto simp: rewound_tgt)
  with s s1 stray(1) none have e: "main_expire ev (m\<lparr>tgt := t1, cur_bp := None\<rparr>) = Return (True, m1)"
    by (auto simp: step_trap main_dispatch_def split: if_splits)
  from main_expire_frame [OF e] s have m1: "return_address m1 \<noteq> 0" "cur_bp m1 = None" "last_thread m1 = ev_pid ev"
    "hold_threads m1 = hold_threads m" by auto
  then show ?thesis by (simp add: step_trap main_leave_def)
qed

text \<open>For example: thread 7 is in a call that returns to 0x2000 and stops at 0x3000.\<close>

definition stray_mon :: mon where
  "stray_mon = demo_mon\<lparr>cur_bp := Some 0, return_address := 0x2000, return_code := 0x90, last_thread := 7,
     tgt := demo_target\<lparr>tregs := (\<lambda>_. \<lparr>rsp = 0x7000, rax = 0, rsi = 0, rdi = 0, rip = 0x3001\<rparr>)\<rparr>\<rparr>"

lemma stray_mon_step: "\<exists>m1. main_step trap_event stray_mon = Return (True, m1)"
proof -
  have f: "return_address stray_mon = 0x2000" "last_thread stray_mon = 7" "cur_bp stray_mon = Some 0" "ev_pid trap_event = 7"
    "ev_now trap_event = 105" "trkr stray_mon = one_block" "mopts stray_mon = default_opts" "return_code stray_mon = 0x90"
    "g_breakpoints stray_mon = [\<lparr>bp_name = ''malloc'', handler = Bph_malloc, entry_address = 0x1000, entry_code = 0x90\<rparr>]"
    by (simp_all add: stray_mon_def demo_mon_def trap_event_def)
  have un: "rip (unwound stray_mon trap_event) = 0x3000"
    by (simp add: unwound_def regs_of_def stray_mon_def)
  have b: "breakpoint_by_entry 0x3000 (g_breakpoints stray_mon) = None" by (simp add: breakpoint_by_entry_None f)
  let ?t = "set_breakpoint_x86_64 7 0x1000 0x90 (ptrace_set_data 7 0x2000 0x90 (tgt (rewound stray_mon trap_event)))"
  have st: "tstop (tgt (rewound stray_mon trap_event)) 7" by (simp add: rewound_stopped [OF trap_event_stop] f)
  have "\<not> is_breakpoint_x86_64 7 0x3000 ?t"
    by (simp add: bp_x86_64.is_bp set_breakpoint_x86_64_def set_data_space poke_def st)
       (simp add: space_of_def stray_mon_def demo_target_def)
  moreover have "main_leave 7 (rewound stray_mon trap_event) = Return (stray_mon\<lparr>tgt := ?t\<rparr>)"
    by (simp add: main_leave_def Let_def f rewound_tgt)
  moreover have "main_expire trap_event (stray_mon\<lparr>tgt := ?t, cur_bp := None\<rparr>) = Return (True,
      stray_mon\<lparr>tgt := ptrace_continue 7 0 ?t, cur_bp := None, alarms := alarms stray_mon @ [6]\<rparr>)"
    by (simp add: main_expire_def f default_opts_def one_block_young int_of_long_def Let_def)
  ultimately show ?thesis
    by (simp add: step_trap [OF trap_event_stop] f un main_dispatch_def b [unfolded f])
qed

theorem stray_trap_breaks_call_witness:
  "\<exists>m1. main_step trap_event stray_mon = Return (True, m1) \<and> main_step trap_event m1 = Crash NullDeref"
proof -
  obtain m1 where m1: "main_step trap_event stray_mon = Return (True, m1)" using stray_mon_step by blast
  have "return_address stray_mon \<noteq> 0" "last_thread stray_mon = ev_pid trap_event" "cur_bp stray_mon = Some 0"
    "rip (unwound stray_mon trap_event) \<noteq> return_address stray_mon"
    "rip (unwound stray_mon trap_event) \<notin> entry_address ` set (g_breakpoints stray_mon)"
    by (simp_all add: stray_mon_def demo_mon_def trap_event_def unwound_def regs_of_def)
  from stray_trap_breaks_call [OF trap_event_stop this m1]
  have "\<forall>t. main_step trap_event (m1\<lparr>tgt := t\<rparr>) = Crash NullDeref" using trap_event_stop by auto
  from spec [OF this, of "tgt m1"] have "main_step trap_event m1 = Crash NullDeref" by simp
  with m1 show ?thesis by auto
qed

section \<open>Options\<close>

lemma parse_loop_checked:
  assumes "parse_loop cs og = Return og'" "memory_expire og \<noteq> 0" "memblock_limit og \<noteq> 0" "callstack_limit og \<noteq> 0"
    "opt_backtrace_limit og \<noteq> 0" "opt_backtrace_limit og \<le> int BACKTRACE_MAX"
  shows "memory_expire og' \<noteq> 0 \<and> memblock_limit og' \<noteq> 0 \<and> callstack_limit og' \<noteq> 0 \<and>
    opt_backtrace_limit og' \<noteq> 0 \<and> opt_backtrace_limit og' \<le> int BACKTRACE_MAX"
  using assms
proof (induction cs og rule: parse_loop.induct)
  case (2 ch optarg cs og)
  from "2.prems"(1) obtain og1 where o1: "parse_opt ch optarg og = Return og1" "parse_loop cs og1 = Return og'"
    by (auto simp: run_bind_Return)
  have "memory_expire og1 \<noteq> 0 \<and> memblock_limit og1 \<noteq> 0 \<and> callstack_limit og1 \<noteq> 0 \<and>
      opt_backtrace_limit og1 \<noteq> 0 \<and> opt_backtrace_limit og1 \<le> int BACKTRACE_MAX"
    using o1(1) "2.prems"(2-) by (auto simp: parse_opt_def Let_def split: if_splits)
  with "2.IH" [OF o1] show ?case by blast
qed simp

text \<open>C39 (options_checked): the options that are accepted have a non-zero threshold, non-zero
  limits, and a backtrace limit of at most \<open>BACKTRACE_MAX\<close>, so that the frames fit the
  buffer of \<open>callstack_current\<close>; and the target's process id is not 0.\<close>

theorem options_checked:
  assumes "parse_args cs rest = Return (og, p)"
  shows "memory_expire og \<noteq> 0 \<and> memblock_limit og \<noteq> 0 \<and> callstack_limit og \<noteq> 0 \<and>
    opt_backtrace_limit og \<noteq> 0 \<and> opt_backtrace_limit og \<le> int BACKTRACE_MAX \<and> p \<noteq> 0 \<and> rest = [hd rest]"
proof -
  from assms have l: "parse_loop cs default_opts = Return og" and r: "length rest = 1" "p \<noteq> 0"
    by (auto simp: parse_args_def run_bind_Return Let_def split: if_splits)
  from r(1) have "rest = [hd rest]" by (cases rest) auto
  with parse_loop_checked [OF l] r(2) show ?thesis by (simp add: default_opts_def BACKTRACE_MAX_def)
qed

theorem options_checked_witness:
  "parse_args [(CHR ''e'', ''20''), (CHR ''l'', ''5'')] [''1234''] =
     Return (default_opts\<lparr>memory_expire := 20, opt_backtrace_limit := 5\<rparr>, 1234) \<and>
   memory_expire (default_opts\<lparr>memory_expire := 20, opt_backtrace_limit := 5\<rparr>) \<noteq> 0"
proof -
  have e: "parse_args [(CHR ''e'', ''20''), (CHR ''l'', ''5'')] [''1234''] =
     Return (default_opts\<lparr>memory_expire := 20, opt_backtrace_limit := 5\<rparr>, 1234)"
    by (simp add: parse_args_def parse_opt_def atoi_def is_space_def digits_value_def is_digit_def
        saturate_long_def int_of_long_def BACKTRACE_MAX_def default_opts_def Let_def)
  from options_checked [OF e] e show ?thesis by blast
qed

text \<open>Only zero is rejected, so a negative threshold is accepted: then every block is expired
  as soon as it is allocated.\<close>

lemma negative_expire_accepted:
  "parse_args [(CHR ''e'', ''-5'')] [''1234''] = Return (default_opts\<lparr>memory_expire := -5\<rparr>, 1234)"
  by (simp add: parse_args_def parse_opt_def atoi_def is_space_def digits_value_def is_digit_def
      saturate_long_def int_of_long_def default_opts_def Let_def)

section \<open>The end of the program\<close>

lemma count_unfree_counts:
  "expired_count (cs_mem (count_unfree now k st) c) = expired_count (cs_mem st c) \<and>
   free_expired_count (cs_mem (count_unfree now k st) c) = free_expired_count (cs_mem st c) \<and>
   ips (cs_mem (count_unfree now k st) c) = ips (cs_mem st c) \<and> ip_num (cs_mem (count_unfree now k st) c) = ip_num (cs_mem st c) \<and>
   g_callstack_hash (count_unfree now k st) = g_callstack_hash st"
  by (simp add: count_unfree_def)

lemma fold_count_unfree_counts:
  "expired_count (cs_mem (fold (count_unfree now) ks st) c) = expired_count (cs_mem st c) \<and>
   free_expired_count (cs_mem (fold (count_unfree now) ks st) c) = free_expired_count (cs_mem st c) \<and>
   ips (cs_mem (fold (count_unfree now) ks st) c) = ips (cs_mem st c) \<and> ip_num (cs_mem (fold (count_unfree now) ks st) c) = ip_num (cs_mem st c) \<and>
   g_callstack_hash (fold (count_unfree now) ks st) = g_callstack_hash st"
  by (induction ks arbitrary: st) (simp_all add: count_unfree_counts)

text \<open>C7 (final_report): the program ends with status 2 and no report when it ran for less than
  the threshold; otherwise, if there is memory, with status 0 and a report of exactly the call stacks with
  expired blocks that are not freed, in ascending order of their number, which is the
  number of blocks of the stack on the list of expired blocks; if there is no memory and there is such a call stack,
  it writes through NULL. The numbers are not negative and below \<open>2 ^ 30\<close>, so that the comparison does not overflow.\<close>

theorem final_report:
  assumes tr: "tracking (trkr m) now A E L C"
    and small: "\<forall>c \<in> set C. 0 \<le> may_leak (cs_mem (trkr m) c) \<and> may_leak (cs_mem (trkr m) c) < 2 ^ 30"
  shows "if now' - begin_time m < memory_expire (mopts m) then main_end mem_ok now' m = Return (2, main_cleanup m, [])
    else (\<not> mem_ok 0 \<and> (\<exists>c \<in> set C. may_leak (cs_mem (trkr m) c) \<noteq> 0) \<longrightarrow> main_end mem_ok now' m = Crash NullDeref) \<and>
      (\<exists>rep. main_end (\<lambda>_. True) now' m = Return (0, main_cleanup m, rep) \<and>
        sorted (map (\<lambda>l. sint (rl_may_leak l)) rep) \<and> distinct (map rl_stack rep) \<and>
        rl_stack ` set rep = {c \<in> set C. may_leak (cs_mem (trkr m) c) \<noteq> 0} \<and>
        (\<forall>l \<in> set rep. rl_may_leak l = booked (\<lambda>_. 1) (rl_stack l) (mb_mem (trkr m)) (set E)))"
proof (cases "now' - begin_time m < memory_expire (mopts m)")
  case True
  then show ?thesis by (simp add: main_end_def)
next
  case False
  let ?st = "fold (count_unfree now') (E @ A) (trkr m)"
  have inv: "trk_inv (trkr m) A E L C" using tr by (simp add: tracking_def)
  then have tab: "cs_table (trkr m) C" and cnt: "trk_counts (trkr m) A E C" by (simp_all add: trk_inv_def trk_struct_def)
  note f = fold_count_unfree_counts [of now' "E @ A" "trkr m"]
  have tab': "cs_table ?st C" by (rule cs_table_frame [OF tab]) (simp_all only: f)
  have leak: "may_leak (cs_mem ?st c) = may_leak (cs_mem (trkr m) c)" for c by (simp only: may_leak_def f)
  from callstack_report_spec [OF tab'] small obtain rep where rep: "callstack_report (\<lambda>_. True) ?st = Return rep"
    "mset (map rl_stack rep) = mset (filter (\<lambda>n. expired_count (cs_mem ?st n) \<noteq> free_expired_count (cs_mem ?st n)) C)"
    "sorted (map (\<lambda>l. sint (rl_may_leak l)) rep)" "\<forall>l \<in> set rep. rl_stats l = cs_mem ?st (rl_stack l) \<and>
        rl_may_leak l = expired_count (rl_stats l) - free_expired_count (rl_stats l)"
    unfolding leak by blast
  have "distinct C" using tab by (simp add: cs_table_def hash_rep_def)
  then have d: "distinct (map rl_stack rep)" using rep(2) by (metis distinct_filter mset_eq_imp_distinct_iff)
  have "set (map rl_stack rep) = set (filter (\<lambda>n. expired_count (cs_mem ?st n) \<noteq> free_expired_count (cs_mem ?st n)) C)"
    using rep(2) mset_eq_setD by blast
  then have "set (map rl_stack rep) = set (filter (\<lambda>n. expired_count (cs_mem (trkr m) n) \<noteq> free_expired_count (cs_mem (trkr m) n)) C)"
    by (simp only: f)
  then have st: "rl_stack ` set rep = {c \<in> set C. may_leak (cs_mem (trkr m) c) \<noteq> 0}" by (auto simp: may_leak_def signed_eq_0_iff)
  have "rl_may_leak l = booked (\<lambda>_. 1) (rl_stack l) (mb_mem (trkr m)) (set E)" if "l \<in> set rep" for l
  proof -
    have "rl_stack l \<in> set C" using st that by auto
    with cnt have "expired_count (cs_mem (trkr m) (rl_stack l)) - free_expired_count (cs_mem (trkr m) (rl_stack l)) =
        booked (\<lambda>_. 1) (rl_stack l) (mb_mem (trkr m)) (set E)" by (simp add: trk_counts_def)
    with bspec [OF rep(4) that] show ?thesis by (simp only: f)
  qed
  moreover have "callstack_report mem_ok ?st = Crash NullDeref" if "\<not> mem_ok 0" "\<exists>c \<in> set C. may_leak (cs_mem (trkr m) c) \<noteq> 0"
    using that callstack_report_no_memory [OF tab', of mem_ok] unfolding leak by blast
  ultimately show ?thesis using False rep(1,3) d st
    by (simp add: main_end_def memblock_count_eq [OF inv])
qed

text \<open>For example: the block of \<open>one_block\<close> has expired.\<close>

definition expired_mon :: mon where
  "expired_mon = demo_mon\<lparr>trkr := memblock_expire_one 7 one_block\<rparr>"

lemma expired_mon_tracking: "tracking (trkr expired_mon) 120 [] [7] [7] [3]"
  using trk_inv_expire_one [OF one_block_inv, of 7]
  by (simp add: expired_mon_def tracking_def trk_time_def memblock_expire_one_blocks one_block_fields)

lemma expired_mon_leak: "may_leak (cs_mem (trkr expired_mon) 3) = 1"
  by (simp add: expired_mon_def may_leak_def memblock_expire_one_fields(6) one_block_fields zero_callstack_def Let_def count_expired_def)

theorem final_report_witness:
  "\<exists>rep. main_end (\<lambda>_. True) 130 expired_mon = Return (0, main_cleanup expired_mon, rep) \<and> rl_stack ` set rep = {3}"
proof -
  have "\<forall>c \<in> set [3]. 0 \<le> may_leak (cs_mem (trkr expired_mon) c) \<and> may_leak (cs_mem (trkr expired_mon) c) < 2 ^ 30"
    by (simp add: expired_mon_leak)
  moreover have "\<not> (130 - begin_time expired_mon < memory_expire (mopts expired_mon))"
    by (simp add: expired_mon_def demo_mon_def default_opts_def)
  moreover have "{c \<in> set [3]. may_leak (cs_mem (trkr expired_mon) c) \<noteq> 0} = {3}" by (auto simp: expired_mon_leak)
  ultimately show ?thesis
    using final_report [OF expired_mon_tracking, of 130 "\<lambda>_. True"] by (simp only: if_False) blast
qed

end
