(* ===== verification/Debug_Crc.thy ===== *)
theory Debug_Crc
  imports Mlx_Prelude
begin

unbundle bit_operations_syntax

text \<open>
  The checksum of \<open>src/debug_file.c\<close>: the table-driven CRC-32 with which a separate debug
  file is matched to its program, equal to the bitwise definition of the checksum
  (reflected polynomial 0xEDB88320), and its evaluation chunk by chunk over a file.
\<close>

section \<open>The program\<close>

definition crc32_table :: "u32 list" where
  "crc32_table =
    [0x00000000, 0x77073096, 0xee0e612c, 0x990951ba, 0x076dc419, 0x706af48f, 0xe963a535, 0x9e6495a3,
     0x0edb8832, 0x79dcb8a4, 0xe0d5e91e, 0x97d2d988, 0x09b64c2b, 0x7eb17cbd, 0xe7b82d07, 0x90bf1d91,
     0x1db71064, 0x6ab020f2, 0xf3b97148, 0x84be41de, 0x1adad47d, 0x6ddde4eb, 0xf4d4b551, 0x83d385c7,
     0x136c9856, 0x646ba8c0, 0xfd62f97a, 0x8a65c9ec, 0x14015c4f, 0x63066cd9, 0xfa0f3d63, 0x8d080df5,
     0x3b6e20c8, 0x4c69105e, 0xd56041e4, 0xa2677172, 0x3c03e4d1, 0x4b04d447, 0xd20d85fd, 0xa50ab56b,
     0x35b5a8fa, 0x42b2986c, 0xdbbbc9d6, 0xacbcf940, 0x32d86ce3, 0x45df5c75, 0xdcd60dcf, 0xabd13d59,
     0x26d930ac, 0x51de003a, 0xc8d75180, 0xbfd06116, 0x21b4f4b5, 0x56b3c423, 0xcfba9599, 0xb8bda50f,
     0x2802b89e, 0x5f058808, 0xc60cd9b2, 0xb10be924, 0x2f6f7c87, 0x58684c11, 0xc1611dab, 0xb6662d3d,
     0x76dc4190, 0x01db7106, 0x98d220bc, 0xefd5102a, 0x71b18589, 0x06b6b51f, 0x9fbfe4a5, 0xe8b8d433,
     0x7807c9a2, 0x0f00f934, 0x9609a88e, 0xe10e9818, 0x7f6a0dbb, 0x086d3d2d, 0x91646c97, 0xe6635c01,
     0x6b6b51f4, 0x1c6c6162, 0x856530d8, 0xf262004e, 0x6c0695ed, 0x1b01a57b, 0x8208f4c1, 0xf50fc457,
     0x65b0d9c6, 0x12b7e950, 0x8bbeb8ea, 0xfcb9887c, 0x62dd1ddf, 0x15da2d49, 0x8cd37cf3, 0xfbd44c65,
     0x4db26158, 0x3ab551ce, 0xa3bc0074, 0xd4bb30e2, 0x4adfa541, 0x3dd895d7, 0xa4d1c46d, 0xd3d6f4fb,
     0x4369e96a, 0x346ed9fc, 0xad678846, 0xda60b8d0, 0x44042d73, 0x33031de5, 0xaa0a4c5f, 0xdd0d7cc9,
     0x5005713c, 0x270241aa, 0xbe0b1010, 0xc90c2086, 0x5768b525, 0x206f85b3, 0xb966d409, 0xce61e49f,
     0x5edef90e, 0x29d9c998, 0xb0d09822, 0xc7d7a8b4, 0x59b33d17, 0x2eb40d81, 0xb7bd5c3b, 0xc0ba6cad,
     0xedb88320, 0x9abfb3b6, 0x03b6e20c, 0x74b1d29a, 0xead54739, 0x9dd277af, 0x04db2615, 0x73dc1683,
     0xe3630b12, 0x94643b84, 0x0d6d6a3e, 0x7a6a5aa8, 0xe40ecf0b, 0x9309ff9d, 0x0a00ae27, 0x7d079eb1,
     0xf00f9344, 0x8708a3d2, 0x1e01f268, 0x6906c2fe, 0xf762575d, 0x806567cb, 0x196c3671, 0x6e6b06e7,
     0xfed41b76, 0x89d32be0, 0x10da7a5a, 0x67dd4acc, 0xf9b9df6f, 0x8ebeeff9, 0x17b7be43, 0x60b08ed5,
     0xd6d6a3e8, 0xa1d1937e, 0x38d8c2c4, 0x4fdff252, 0xd1bb67f1, 0xa6bc5767, 0x3fb506dd, 0x48b2364b,
     0xd80d2bda, 0xaf0a1b4c, 0x36034af6, 0x41047a60, 0xdf60efc3, 0xa867df55, 0x316e8eef, 0x4669be79,
     0xcb61b38c, 0xbc66831a, 0x256fd2a0, 0x5268e236, 0xcc0c7795, 0xbb0b4703, 0x220216b9, 0x5505262f,
     0xc5ba3bbe, 0xb2bd0b28, 0x2bb45a92, 0x5cb36a04, 0xc2d7ffa7, 0xb5d0cf31, 0x2cd99e8b, 0x5bdeae1d,
     0x9b64c2b0, 0xec63f226, 0x756aa39c, 0x026d930a, 0x9c0906a9, 0xeb0e363f, 0x72076785, 0x05005713,
     0x95bf4a82, 0xe2b87a14, 0x7bb12bae, 0x0cb61b38, 0x92d28e9b, 0xe5d5be0d, 0x7cdcefb7, 0x0bdbdf21,
     0x86d3d2d4, 0xf1d4e242, 0x68ddb3f8, 0x1fda836e, 0x81be16cd, 0xf6b9265b, 0x6fb077e1, 0x18b74777,
     0x88085ae6, 0xff0f6a70, 0x66063bca, 0x11010b5c, 0x8f659eff, 0xf862ae69, 0x616bffd3, 0x166ccf45,
     0xa00ae278, 0xd70dd2ee, 0x4e048354, 0x3903b3c2, 0xa7672661, 0xd06016f7, 0x4969474d, 0x3e6e77db,
     0xaed16a4a, 0xd9d65adc, 0x40df0b66, 0x37d83bf0, 0xa9bcae53, 0xdebb9ec5, 0x47b2cf7f, 0x30b5ffe9,
     0xbdbdf21c, 0xcabac28a, 0x53b39330, 0x24b4a3a6, 0xbad03605, 0xcdd70693, 0x54de5729, 0x23d967bf,
     0xb3667a2e, 0xc4614ab8, 0x5d681b02, 0x2a6f2b94, 0xb40bbe37, 0xc30c8ea1, 0x5a05df1b, 0x2d02ef8d]"

fun crc32_loop :: "u32 \<Rightarrow> u8 list \<Rightarrow> u32" where
  "crc32_loop crc [] = crc"
| "crc32_loop crc (b # buf) =
     crc32_loop (crc32_table ! unat ((crc XOR ucast b) AND 0xff) XOR drop_bit 8 crc) buf"

definition gnu_debuglink_crc32 :: "u32 \<Rightarrow> u8 list \<Rightarrow> u32" where
  "gnu_debuglink_crc32 crc buf = (NOT (crc32_loop (NOT crc AND 0xffffffff) buf)) AND 0xffffffff"

text \<open>The chunks that successive calls of \<open>read\<close> deliver, up to the first one of length 0 (or an
  error, \<open>None\<close>).\<close>

fun file_crc32_loop :: "u8 list option list \<Rightarrow> u32 \<Rightarrow> u32" where
  "file_crc32_loop [] crc = crc"
| "file_crc32_loop (None # rs) crc = crc"
| "file_crc32_loop (Some buffer # rs) crc =
     (if buffer = [] then crc else file_crc32_loop rs (gnu_debuglink_crc32 crc buffer))"

definition file_crc32 :: "u8 list option list \<Rightarrow> u32" where
  "file_crc32 reads = file_crc32_loop reads 0"

section \<open>The bitwise definition\<close>

definition crc_bit :: "u32 \<Rightarrow> u32" where
  "crc_bit c = drop_bit 1 c XOR (if bit c 0 then 0xEDB88320 else 0)"

definition crc_byte :: "u32 \<Rightarrow> u8 \<Rightarrow> u32" where
  "crc_byte c b = (crc_bit ^^ 8) (c XOR ucast b)"

definition crc32_spec :: "u8 list \<Rightarrow> u32" where
  "crc32_spec bs = NOT (foldl crc_byte (NOT 0) bs)"

lemma crc_bit_xor: "crc_bit (x XOR y) = crc_bit x XOR crc_bit y"
  by (rule bit_word_eqI) (auto simp: crc_bit_def bit_simps)

lemma crc_bit_even: "\<not> bit c 0 \<Longrightarrow> crc_bit c = drop_bit 1 c"
  by (simp add: crc_bit_def)

lemma crc_bits_xor: "(crc_bit ^^ n) (x XOR y) = (crc_bit ^^ n) x XOR (crc_bit ^^ n) y"
  by (induction n) (simp_all add: crc_bit_xor)

lemma crc_bits_even:
  assumes "\<And>k. k < n \<Longrightarrow> \<not> bit c k"
  shows "(crc_bit ^^ n) c = drop_bit n c"
  using assms
proof (induction n)
  case (Suc n)
  have "(crc_bit ^^ Suc n) c = crc_bit (drop_bit n c)" using Suc by simp
  also have "\<dots> = drop_bit (Suc n) c"
    using Suc.prems [of n] by (subst crc_bit_even) (simp_all add: bit_simps)
  finally show ?case .
qed simp

text \<open>The table holds eight steps for every byte.\<close>

lemma crc_eight: "(crc_bit ^^ 8) x = crc_bit (crc_bit (crc_bit (crc_bit (crc_bit (crc_bit (crc_bit (crc_bit x)))))))"
  by (simp add: eval_nat_numeral)

definition crc_double :: "u32 \<Rightarrow> u32 list \<Rightarrow> u32 list" where
  "crc_double b xs = xs @ map (\<lambda>x. b XOR x) xs"

lemma word_of_nat_power_add:
  assumes "i < 2 ^ k"
  shows "(word_of_nat (2 ^ k + i) :: u32) = word_of_nat (2 ^ k) XOR word_of_nat i"
proof -
  have "\<not> bit i k" using assms by (metis bit_take_bit_iff less_irrefl take_bit_nat_eq_self)
  then have "(2 ^ k AND i :: nat) = 0" by (intro bit_eqI) (auto simp: bit_simps)
  then have "2 ^ k + i = 2 ^ k XOR i" by (rule disjunctive_add_eq_xor)
  then show ?thesis by (simp add: of_nat_xor_eq)
qed

lemma crc_bits_double:
  "map (\<lambda>i. (crc_bit ^^ 8) (word_of_nat i)) [0..<2 ^ Suc k] =
     crc_double ((crc_bit ^^ 8) (2 ^ k)) (map (\<lambda>i. (crc_bit ^^ 8) (word_of_nat i)) [0..<2 ^ k])"
proof -
  have "[0..<2 ^ Suc k] = [0..<2 ^ k] @ map (\<lambda>i. i + 2 ^ k) [0..<2 ^ k]"
    using upt_add_eq_append [of 0 "2 ^ k" "2 ^ k"] map_add_upt [of "2 ^ k" "2 ^ k"] by (simp add: mult_2)
  moreover have "map (\<lambda>i. (crc_bit ^^ 8) (word_of_nat (2 ^ k + i))) [0..<2 ^ k] =
      map (\<lambda>i. (crc_bit ^^ 8) (2 ^ k) XOR (crc_bit ^^ 8) (word_of_nat i)) [0..<2 ^ k]"
    by (intro map_cong refl) (simp only: word_of_nat_power_add crc_bits_xor atLeastLessThan_iff set_upt, simp)
  ultimately show ?thesis by (simp add: crc_double_def comp_def add.commute [of _ "2 ^ k"])
qed

lemma crc_basis:
  "(crc_bit ^^ 8) 0 = 0" "(crc_bit ^^ 8) 1 = 0x77073096" "(crc_bit ^^ 8) 2 = 0xee0e612c" "(crc_bit ^^ 8) 4 = 0x076dc419"
  "(crc_bit ^^ 8) 8 = 0x0edb8832" "(crc_bit ^^ 8) 16 = 0x1db71064" "(crc_bit ^^ 8) 32 = 0x3b6e20c8"
  "(crc_bit ^^ 8) 64 = 0x76dc4190" "(crc_bit ^^ 8) 128 = 0xedb88320"
  by (simp_all add: crc_eight crc_bit_def)

lemma crc32_table_double:
  "crc32_table = crc_double 0xedb88320 (crc_double 0x76dc4190 (crc_double 0x3b6e20c8 (crc_double 0x1db71064
     (crc_double 0x0edb8832 (crc_double 0x076dc419 (crc_double 0xee0e612c (crc_double 0x77073096 [0])))))))"
  by (simp add: crc_double_def crc32_table_def)

lemma crc32_table_bits: "crc32_table = map (\<lambda>i. (crc_bit ^^ 8) (word_of_nat i)) [0..<256]"
proof -
  let ?f = "\<lambda>n. map (\<lambda>i. (crc_bit ^^ 8) (word_of_nat i)) [0..<n]"
  have "?f (2 ^ 0) = [0]" using crc_basis by simp
  then have 1: "?f (2 ^ 1) = crc_double 0x77073096 [0]"
    using crc_bits_double [of 0] crc_basis(2) by (simp only: One_nat_def power_0)
  have 2: "?f (2 ^ 2) = crc_double 0xee0e612c (?f (2 ^ 1))"
    using crc_bits_double [of 1] crc_basis(3) by (simp only: Suc_1 power_one_right)
  have step: "?f (2 ^ m) = crc_double c (?f (2 ^ k))" if "m = Suc k" and "(crc_bit ^^ 8) (2 ^ k) = c" for m k c
    using crc_bits_double [of k] that by (simp only:)
  have 3: "?f (2 ^ 3) = crc_double 0x076dc419 (?f (2 ^ 2))" using crc_basis by (intro step) simp_all
  have 4: "?f (2 ^ 4) = crc_double 0x0edb8832 (?f (2 ^ 3))" using crc_basis by (intro step) simp_all
  have 5: "?f (2 ^ 5) = crc_double 0x1db71064 (?f (2 ^ 4))" using crc_basis by (intro step) simp_all
  have 6: "?f (2 ^ 6) = crc_double 0x3b6e20c8 (?f (2 ^ 5))" using crc_basis by (intro step) simp_all
  have 7: "?f (2 ^ 7) = crc_double 0x76dc4190 (?f (2 ^ 6))" using crc_basis by (intro step) simp_all
  have 8: "?f (2 ^ 8) = crc_double 0xedb88320 (?f (2 ^ 7))" using crc_basis by (intro step) simp_all
  have "?f (2 ^ 8) = crc32_table" unfolding 8 7 6 5 4 3 2 1 crc32_table_double ..
  then show ?thesis by simp
qed

lemma crc32_table_nth: "unat x < 256 \<Longrightarrow> crc32_table ! unat x = (crc_bit ^^ 8) x"
  by (simp add: crc32_table_bits)

lemma crc32_step: "crc32_table ! unat ((crc XOR ucast b) AND 0xff) XOR drop_bit 8 crc = crc_byte crc b"
proof -
  let ?c = "crc XOR ucast b"
  have m: "(0xff :: u32) = mask 8" by (simp add: mask_eq_decr_exp)
  have "unat (?c AND mask 8) < 256"
    using and_mask_less' [of 8 ?c] by (simp add: word_less_nat_alt)
  then have lo: "crc32_table ! unat (?c AND 0xff) = (crc_bit ^^ 8) (?c AND mask 8)" unfolding m by (rule crc32_table_nth)
  have hi: "(crc_bit ^^ 8) (?c AND NOT (mask 8)) = drop_bit 8 crc"
  proof -
    have "(crc_bit ^^ 8) (?c AND NOT (mask 8)) = drop_bit 8 (?c AND NOT (mask 8))"
      by (rule crc_bits_even) (simp add: bit_simps)
    also have "\<dots> = drop_bit 8 crc" by (rule bit_word_eqI) (auto simp: bit_simps dest: bit_imp_le_length)
    finally show ?thesis .
  qed
  have "?c = (?c AND mask 8) XOR (?c AND NOT (mask 8))" by (rule bit_word_eqI) (auto simp: bit_simps)
  then have "crc_byte crc b = (crc_bit ^^ 8) (?c AND mask 8) XOR (crc_bit ^^ 8) (?c AND NOT (mask 8))"
    unfolding crc_byte_def by (metis crc_bits_xor)
  then show ?thesis by (simp add: lo hi)
qed

lemma crc32_loop_foldl: "crc32_loop crc bs = foldl crc_byte crc bs"
  by (induction bs arbitrary: crc) (simp_all add: crc32_step)

lemma gnu_debuglink_crc32_foldl: "gnu_debuglink_crc32 crc bs = NOT (foldl crc_byte (NOT crc) bs)"
proof -
  have "(0xffffffff :: u32) = mask 32" by (simp add: mask_eq_decr_exp)
  moreover have "x AND mask 32 = x" for x :: u32
    by (simp only: take_bit_eq_mask [symmetric]) (simp add: take_bit_word_eq_self)
  ultimately have "x AND 0xffffffff = x" for x :: u32 by metis
  then show ?thesis unfolding gnu_debuglink_crc32_def crc32_loop_foldl by metis
qed

text \<open>The bytes of a file: the chunks before the first empty one or the error.\<close>

fun file_bytes :: "u8 list option list \<Rightarrow> u8 list" where
  "file_bytes [] = []"
| "file_bytes (None # rs) = []"
| "file_bytes (Some buffer # rs) = (if buffer = [] then [] else buffer @ file_bytes rs)"

lemma file_crc32_loop_bytes: "file_crc32_loop rs crc = gnu_debuglink_crc32 crc (file_bytes rs)"
proof (induction rs crc rule: file_crc32_loop.induct)
  case (3 buffer rs crc)
  then show ?case by (auto simp: gnu_debuglink_crc32_foldl)
qed (simp_all add: gnu_debuglink_crc32_foldl)

lemma file_crc32_spec: "file_crc32 reads = crc32_spec (file_bytes reads)"
  by (simp add: file_crc32_def file_crc32_loop_bytes gnu_debuglink_crc32_foldl crc32_spec_def)

text \<open>C28 (file_crc32_bitwise): the checksum of a file is the CRC-32 of its bytes as the bitwise
  definition gives it, however \<open>read\<close> cuts the file into chunks; in particular all 256
  entries of the table are right.\<close>

theorem file_crc32_bitwise: "file_crc32 reads = crc32_spec (file_bytes reads)"
  by (rule file_crc32_spec)

text \<open>The check value of CRC-32: the checksum of the digits 1 to 9.\<close>

lemma crc32_check_value:
  "file_crc32 [Some [0x31, 0x32, 0x33], Some [0x34, 0x35, 0x36, 0x37, 0x38, 0x39], Some []] = 0xcbf43926"
  by (simp add: file_crc32_def file_crc32_loop_bytes gnu_debuglink_crc32_foldl crc_byte_def crc_eight crc_bit_def)

end
