(* ===== verification/Debug_File.thy ===== *)
theory Debug_File
  imports Debug_Crc C_Text Target_Memory
begin

text \<open>
  \<open>src/debug_file.c\<close> after the checksum: reading the build id and the debug link of an ELF
  file, checking a candidate against them, and the sequence of candidates that
  \<open>debug_try_get\<close> offers for a program or library. The file system, with what libelf and
  \<open>read\<close> return for a file, is an argument (\<open>files\<close>). The static variables are the record
  \<open>dbg\<close>; an access past one of the buffers is \<open>Crash BufferOverflow\<close>.
\<close>

section \<open>Files\<close>

text \<open>
  What libelf says of a file: the header and the table of section names can be read, and the
  sections, each with its name and data; a section header that cannot be read is \<open>None\<close>, so is
  data that cannot.
\<close>

record elf_view =
  ehdr_ok :: bool
  strtab_ok :: bool
  elf_scns :: "(string \<times> u8 list option) option list"

text \<open>
  \<open>df_elf\<close> is \<open>None\<close> when \<open>elf_begin\<close> fails, \<open>df_reads\<close> are the results of \<open>read\<close> and \<open>df_stack\<close> the
  1000 bytes that the uninitialised buffer holds before a section of the file is read into it.
\<close>

record dfile =
  df_elf :: "elf_view option"
  df_reads :: "u8 list option list"
  df_stack :: "u8 list"

type_synonym files = "string \<Rightarrow> dfile option"

fun section_loop :: "string \<Rightarrow> nat \<Rightarrow> (string \<times> u8 list option) option list \<Rightarrow> u8 list \<Rightarrow> (int \<times> u8 list) run" where
  "section_loop name out_size [] out_buf = Return (-1, out_buf)"
| "section_loop name out_size (None # ss) out_buf = Return (-1, out_buf)"
| "section_loop name out_size (Some (n, sdata) # ss) out_buf =
     (if n = name then
        (case sdata of
           None \<Rightarrow> Crash NullDeref
         | Some d \<Rightarrow>
             if length d > out_size then Return (-1, out_buf)
             else Return (int (length d), d @ drop (length d) out_buf))
      else section_loop name out_size ss out_buf)"

text \<open>\<open>fd\<close> is \<open>None\<close> for a descriptor of a file that could not be opened.\<close>

definition elf_section_data :: "dfile option \<Rightarrow> string \<Rightarrow> u8 list \<Rightarrow> nat \<Rightarrow> (int \<times> u8 list) run" where
  "elf_section_data fd name out_buf out_size =
     (case fd of
        None \<Rightarrow> Return (-1, out_buf)
      | Some f \<Rightarrow>
          (case df_elf f of
             None \<Rightarrow> Return (-1, out_buf)
           | Some elf \<Rightarrow>
               if \<not> ehdr_ok elf then Return (-1, out_buf)
               else if \<not> strtab_ok elf then Crash NullDeref
               else section_loop name out_size (elf_scns elf) out_buf))"

definition stack_of :: "dfile option \<Rightarrow> u8 list" where
  "stack_of fd = (case fd of None \<Rightarrow> replicate 1000 0 | Some f \<Rightarrow> df_stack f)"

definition le32 :: "u8 list \<Rightarrow> u32" where
  "le32 bs = le_word (take 4 bs)"

text \<open>The length of the build id and the array it is copied to.\<close>

definition elf_build_id :: "dfile option \<Rightarrow> u8 list \<Rightarrow> (int \<times> u8 list) run" where
  "elf_build_id fd build_id =
     run_bind (elf_section_data fd ''.note.gnu.build-id'' (stack_of fd) 1000) (\<lambda>(r, buffer).
       if r < 0 then Return (0, build_id)
       else let buildid_len = sint (le32 (drop 4 buffer))
            in if buildid_len < 0 \<or> buildid_len > int (length build_id) \<or> 16 + buildid_len > 1000
               then Crash BufferOverflow
               else Return (buildid_len,
                  take (nat buildid_len) (drop 16 buffer) @ drop (nat buildid_len) build_id))"

definition c_string :: "u8 list \<Rightarrow> string" where
  "c_string bs = map (\<lambda>b. char_of (unat b)) (takeWhile (\<lambda>b. b \<noteq> 0) bs)"

text \<open>The checksum and the name of the debug file; the name is left as it is when there is no
  link.\<close>

definition elf_debug_link :: "dfile option \<Rightarrow> string \<Rightarrow> (u32 \<times> string) run" where
  "elf_debug_link fd fname =
     run_bind (elf_section_data fd ''.gnu_debuglink'' (stack_of fd) 1000) (\<lambda>(r, buffer).
       if r < 0 then Return (0, fname)
       else if 0 \<notin> set buffer then Crash BufferOverflow
       else let fname = c_string buffer; pos = (length fname + 4) AND 0xFFFFFFFC
            in if pos + 4 > 1000 then Crash BufferOverflow else Return (le32 (drop pos buffer), fname))"

section \<open>Candidates\<close>

record dbg =
  g_path :: string
  g_dir :: string
  g_index :: nat
  g_exe_self :: bool
  g_build_id :: "u8 list"
  g_buildid_len :: int
  g_debug_fname :: string
  g_debug_crc32 :: u32

definition init_dbg :: dbg where
  "init_dbg = \<lparr>g_path = [], g_dir = [], g_index = 0, g_exe_self = False, g_build_id = replicate 100 0,
     g_buildid_len = 0, g_debug_fname = [], g_debug_crc32 = 0\<rparr>"

text \<open>Of the array \<open>bid\<close>, uninitialised before, only the bytes that \<open>elf_build_id\<close> copied are compared.\<close>

definition debug_valid :: "files \<Rightarrow> dbg \<Rightarrow> string \<Rightarrow> bool run" where
  "debug_valid fs st debug_path =
     (case fs debug_path of
        None \<Rightarrow> Return False
      | Some f \<Rightarrow>
          if g_buildid_len st \<noteq> 0 then
            run_bind (elf_build_id (Some f) (replicate 100 0)) (\<lambda>(bid_len, bid).
              Return (\<not> (bid_len \<noteq> g_buildid_len st \<or> take (nat bid_len) (g_build_id st) \<noteq> take (nat bid_len) bid)))
          else if g_debug_crc32 st \<noteq> 0 then Return (file_crc32 (df_reads f) = g_debug_crc32 st)
          else Return True)"

definition debug_try_init :: "files \<Rightarrow> string \<Rightarrow> bool \<Rightarrow> dbg \<Rightarrow> dbg run" where
  "debug_try_init fs path exe_self st =
     (if length path \<ge> 1024 then Crash BufferOverflow
      else case strchr_last path (CHR ''/'') of
        None \<Rightarrow> Crash NullDeref
      | Some p \<Rightarrow>
          let st = st\<lparr>g_path := path, g_exe_self := exe_self, g_index := 0, g_dir := take p path\<rparr>; fd = fs path
          in run_bind (elf_build_id fd (g_build_id st)) (\<lambda>(len, bid).
             run_bind (elf_debug_link fd (g_debug_fname st)) (\<lambda>(crc, fname).
               let st = st\<lparr>g_buildid_len := len, g_build_id := bid, g_debug_crc32 := crc, g_debug_fname := fname\<rparr>
               in if crc = 0 then
                    let fname = drop (p + 1) path @ ''.debug''
                    in if length fname < 1024 then Return (st\<lparr>g_debug_fname := fname\<rparr>) else Crash BufferOverflow
                  else Return st)))"

text \<open>The names of the candidates, each printed into \<open>debug_path[2048]\<close>.\<close>

definition build_id_path :: "dbg \<Rightarrow> string" where
  "build_id_path st =
     ''/usr/lib/debug/.build-id/'' @ print_hex 2 (unat (g_build_id st ! 0)) @ ''/'' @
     concat (map (\<lambda>i. print_hex 2 (unat (g_build_id st ! i))) [1..<nat (g_buildid_len st)]) @ ''.debug''"

definition same_dir_path :: "dbg \<Rightarrow> string" where
  "same_dir_path st = g_dir st @ ''/'' @ g_debug_fname st"

definition sub_dir_path :: "dbg \<Rightarrow> string" where
  "sub_dir_path st = g_dir st @ ''/.debug/'' @ g_debug_fname st"

definition usr_lib_path :: "dbg \<Rightarrow> string" where
  "usr_lib_path st = ''/usr/lib/debug'' @ g_dir st @ ''/'' @ g_debug_fname st"

text \<open>A case that prints a name, checks it and, if it is not valid, falls through to the next.\<close>

definition try_path ::
  "files \<Rightarrow> string \<Rightarrow> (dbg \<Rightarrow> (string option \<times> dbg) run) \<Rightarrow> dbg \<Rightarrow> (string option \<times> dbg) run" where
  "try_path fs path fall st =
     (if length path \<ge> 2048 then Crash BufferOverflow
      else run_bind (debug_valid fs st path) (\<lambda>ok. if ok then Return (Some path, st) else fall st))"

definition try_case5 :: "files \<Rightarrow> dbg \<Rightarrow> (string option \<times> dbg) run" where
  "try_case5 fs st =
     (let st = st\<lparr>g_index := 6\<rparr> in try_path fs (usr_lib_path st) (\<lambda>st. Return (None, st)) st)"

definition try_case4 :: "files \<Rightarrow> dbg \<Rightarrow> (string option \<times> dbg) run" where
  "try_case4 fs st =
     (let st = st\<lparr>g_index := 5\<rparr> in try_path fs (sub_dir_path st) (try_case5 fs) st)"

definition try_case3 :: "files \<Rightarrow> dbg \<Rightarrow> (string option \<times> dbg) run" where
  "try_case3 fs st =
     (let st = st\<lparr>g_index := 4\<rparr> in try_path fs (same_dir_path st) (try_case4 fs) st)"

definition try_case2 :: "files \<Rightarrow> dbg \<Rightarrow> (string option \<times> dbg) run" where
  "try_case2 fs st =
     (let st = st\<lparr>g_index := 3\<rparr>
      in if g_buildid_len st \<noteq> 0 then try_path fs (build_id_path st) (try_case3 fs) st else try_case3 fs st)"

definition try_case1 :: "dbg \<Rightarrow> (string option \<times> dbg) run" where
  "try_case1 st = Return (Some (g_path st), st\<lparr>g_index := 2\<rparr>)"

definition try_case0 :: "files \<Rightarrow> string option \<Rightarrow> dbg \<Rightarrow> (string option \<times> dbg) run" where
  "try_case0 fs opt_file st =
     (let st = st\<lparr>g_index := 1\<rparr>
      in case (if g_exe_self st then opt_file else None) of
           Some f \<Rightarrow> run_bind (debug_valid fs st f) (\<lambda>ok. if ok then Return (Some f, st) else Exit 4)
         | None \<Rightarrow> try_case1 st)"

definition debug_try_get :: "files \<Rightarrow> string option \<Rightarrow> dbg \<Rightarrow> (string option \<times> dbg) run" where
  "debug_try_get fs opt_file st =
     (if g_index st = 0 then try_case0 fs opt_file st
      else if g_index st = 1 then try_case1 st
      else if g_index st = 2 then try_case2 fs st
      else if g_index st = 3 then try_case3 fs st
      else if g_index st = 4 then try_case4 fs st
      else if g_index st = 5 then try_case5 fs st
      else Return (None, st))"

lemmas try_defs = debug_try_get_def try_case0_def try_case1_def try_case2_def try_case3_def try_case4_def
  try_case5_def try_path_def Let_def

section \<open>The loop of the builders\<close>

text \<open>An offer moves the index on, so that the loop over the candidates ends.\<close>

lemma debug_try_get_index:
  "debug_try_get fs opt_file st = Return (Some p, st') \<Longrightarrow> g_index st < g_index st' \<and> g_index st' \<le> 6"
  by (auto simp: try_defs run_bind_Return split: if_splits option.splits)

text \<open>
  \<open>build\<close> reads the symbols or the lines of a file and gives their number; the loop stops at the
  first candidate that has some.
\<close>

function debug_try_loop ::
  "files \<Rightarrow> string option \<Rightarrow> (string \<Rightarrow> 't \<Rightarrow> (int \<times> 't) run) \<Rightarrow> dbg \<Rightarrow> 't \<Rightarrow> (string option \<times> dbg \<times> 't) run" where
  "debug_try_loop fs opt_file build st tab =
     run_bind (debug_try_get fs opt_file st) (\<lambda>(debugp, st).
       case debugp of
         None \<Rightarrow> Return (None, st, tab)
       | Some p \<Rightarrow> run_bind (build p tab) (\<lambda>(n, tab).
           if n > 0 then Return (Some p, st, tab) else debug_try_loop fs opt_file build st tab))"
  by pat_completeness auto
termination
  by (relation "measure (\<lambda>(fs, opt_file, build, st, tab). 6 - g_index st)") (auto dest!: debug_try_get_index)

declare debug_try_loop.simps [simp del]

section \<open>Decoding\<close>

text \<open>The formats of the two sections: an ELF note of the owner GNU, and a name, padded to four
  bytes, with a checksum.\<close>

definition bytes32 :: "u32 \<Rightarrow> u8 list" where
  "bytes32 w = map (\<lambda>i. ucast (drop_bit (8 * i) w)) [0..<4]"

definition build_id_note :: "u8 list \<Rightarrow> u8 list" where
  "build_id_note i = bytes32 4 @ bytes32 (word_of_nat (length i)) @ bytes32 3 @ [0x47, 0x4e, 0x55, 0] @ i"

definition debug_link_data :: "u8 list \<Rightarrow> u32 \<Rightarrow> u8 list" where
  "debug_link_data name crc = name @ replicate (4 - length name mod 4) 0 @ bytes32 crc"

fun section_of :: "string \<Rightarrow> (string \<times> u8 list option) option list \<Rightarrow> u8 list option" where
  "section_of name [] = None"
| "section_of name (None # ss) = None"
| "section_of name (Some (n, d) # ss) = (if n = name then d else section_of name ss)"

definition readable :: "dfile \<Rightarrow> bool" where
  "readable f \<longleftrightarrow> length (df_stack f) = 1000 \<and>
     (case df_elf f of None \<Rightarrow> True
      | Some e \<Rightarrow> ehdr_ok e \<and> strtab_ok e \<and> (\<forall>s \<in> set (elf_scns e). \<forall>n d. s = Some (n, d) \<longrightarrow> d \<noteq> None))"

definition elf_section :: "dfile \<Rightarrow> string \<Rightarrow> u8 list option" where
  "elf_section f name = (case df_elf f of None \<Rightarrow> None | Some e \<Rightarrow> section_of name (elf_scns e))"

lemma section_loop_of:
  "(\<forall>s \<in> set ss. \<forall>n d. s = Some (n, d) \<longrightarrow> d \<noteq> None) \<Longrightarrow>
    section_loop name k ss buf = Return (case section_of name ss of
       None \<Rightarrow> (-1, buf)
     | Some d \<Rightarrow> if length d > k then (-1, buf) else (int (length d), d @ drop (length d) buf))"
  by (induction name k ss buf rule: section_loop.induct) (auto split: option.splits)

lemma elf_section_data_of:
  assumes "readable f"
  shows "elf_section_data (Some f) name buf k = Return (case elf_section f name of
       None \<Rightarrow> (-1, buf)
     | Some d \<Rightarrow> if length d > k then (-1, buf) else (int (length d), d @ drop (length d) buf))"
  using assms by (auto simp: elf_section_data_def readable_def elf_section_def section_loop_of split: option.splits)

lemma length_bytes32 [simp]: "length (bytes32 w) = 4"
  by (simp add: bytes32_def)

lemma le32_bytes32: "le32 (bytes32 w @ bs) = w"
proof (rule bit_word_eqI)
  fix n assume "n < LENGTH(32)"
  then have "n div 8 < 4" by simp
  moreover have "8 * (n div 8) + n mod 8 = n" by simp
  ultimately show "bit (le32 (bytes32 w @ bs)) n = bit w n"
    using \<open>n < LENGTH(32)\<close> by (simp add: le32_def bit_le_word bytes32_def bit_simps)
qed

lemma elf_build_id_decodes:
  assumes "readable f" and "elf_section f ''.note.gnu.build-id'' = Some (build_id_note i)"
    and "length i \<le> 100" and "length old = 100"
  shows "elf_build_id (Some f) old = Return (int (length i), i @ drop (length i) old)"
proof -
  let ?b = "build_id_note i @ drop (length (build_id_note i)) (df_stack f)"
  have d4: "drop 4 ?b = bytes32 (word_of_nat (length i)) @ drop 8 ?b"
    by (simp add: build_id_note_def)
  have "sint (le32 (drop 4 ?b)) = int (length i)"
    unfolding d4 le32_bytes32 using assms(3) sint_int_of_long [of "int (length i)"] by (simp add: int_of_long_def)
  moreover have "take (length i) (drop 16 ?b) = i" by (simp add: build_id_note_def)
  ultimately show ?thesis
    using assms by (simp add: elf_build_id_def elf_section_data_of stack_of_def build_id_note_def)
qed

lemma and_mask4:
  fixes n :: nat
  assumes n: "n < 2 ^ 32"
  shows "n AND 0xFFFFFFFC = 4 * (n div 4)"
proof -
  have "n AND 0xFFFFFFFC = n AND push_bit 2 (mask 30)" by (simp add: mask_eq_exp_minus_1 push_bit_eq_mult)
  also have "\<dots> = push_bit 2 (take_bit 30 (drop_bit 2 n))"
  proof (rule bit_eqI)
    fix k
    show "bit (n AND push_bit 2 (mask 30)) k = bit (push_bit 2 (take_bit 30 (drop_bit 2 n))) k"
      using le_add_diff_inverse [of 2 k] by (auto simp: bit_simps simp del: le_add_diff_inverse le_add_diff_inverse2)
  qed
  also have "take_bit 30 (drop_bit 2 n) = drop_bit 2 n"
    using n by (intro take_bit_nat_eq_self) (simp add: drop_bit_eq_div)
  finally show ?thesis by (simp add: push_bit_eq_mult drop_bit_eq_div)
qed

lemma debug_link_pos:
  fixes n :: nat
  assumes "n \<le> 992"
  shows "(n + 4) AND 0xFFFFFFFC = n + (4 - n mod 4)"
proof -
  have "(n + 4) AND 0xFFFFFFFC = 4 * ((n + 4) div 4)" by (rule and_mask4) (use assms in simp)
  moreover have "4 * ((n + 4) div 4) = n + (4 - n mod 4)" by presburger
  ultimately show ?thesis by simp
qed

lemma elf_debug_link_decodes:
  assumes "readable f" and "elf_section f ''.gnu_debuglink'' = Some (debug_link_data name crc)"
    and "length name \<le> 992" and "0 \<notin> set name"
  shows "elf_debug_link (Some f) old = Return (crc, map (\<lambda>b. char_of (unat b)) name)"
proof -
  let ?d = "debug_link_data name crc"
  let ?b = "?d @ drop (length ?d) (df_stack f)"
  have m: "length name mod 4 < 4" by simp
  obtain k where k: "4 - length name mod 4 = Suc k" using m by (cases "4 - length name mod 4") auto
  have tw: "takeWhile (\<lambda>b. b \<noteq> 0) name = name" using assms(4) by (induction name) auto
  have c: "c_string ?b = map (\<lambda>b. char_of (unat b)) name"
    by (simp add: c_string_def debug_link_data_def k takeWhile_tail tw)
  have "drop (length name + (4 - length name mod 4)) ?b = bytes32 crc @ drop (length ?d) (df_stack f)"
    by (simp add: debug_link_data_def)
  then have "le32 (drop (length name + (4 - length name mod 4)) ?b) = crc" by (simp only: le32_bytes32)
  moreover have "0 \<in> set ?b" by (simp add: debug_link_data_def k)
  moreover have "length ?d \<le> 1000" using assms(3) m by (simp add: debug_link_data_def)
  ultimately show ?thesis using assms(3) m
    by (simp add: elf_debug_link_def elf_section_data_of [OF assms(1)] assms(2) stack_of_def Let_def c
      debug_link_pos del: takeWhile_append)
qed

section \<open>Bounds\<close>

definition good_file :: "dfile \<Rightarrow> bool" where
  "good_file f \<longleftrightarrow> readable f \<and>
     (\<forall>d. elf_section f ''.note.gnu.build-id'' = Some d \<longrightarrow> (\<exists>i. d = build_id_note i \<and> length i \<le> 100)) \<and>
     (\<forall>d. elf_section f ''.gnu_debuglink'' = Some d \<longrightarrow>
        (\<exists>name crc. d = debug_link_data name crc \<and> length name \<le> 992 \<and> 0 \<notin> set name))"

definition good_files :: "files \<Rightarrow> bool" where
  "good_files fs \<longleftrightarrow> (\<forall>p f. fs p = Some f \<longrightarrow> good_file f)"

text \<open>The static variables hold what fits their arrays, and the names fit \<open>debug_path\<close>.\<close>

definition dbg_ok :: "dbg \<Rightarrow> bool" where
  "dbg_ok st \<longleftrightarrow> length (g_path st) < 1024 \<and> length (g_dir st) < 1024 \<and> length (g_debug_fname st) < 1024 \<and>
     length (g_build_id st) = 100 \<and> 0 \<le> g_buildid_len st \<and> g_buildid_len st \<le> 100 \<and> g_index st \<le> 6 \<and>
     length (g_dir st) + length (g_debug_fname st) \<le> 2030"

lemma dbg_ok_index: "dbg_ok st \<Longrightarrow> i \<le> 6 \<Longrightarrow> dbg_ok (st\<lparr>g_index := i\<rparr>)"
  by (simp add: dbg_ok_def)

lemma elf_section_data_None: "elf_section_data None name buf k = Return (-1, buf)"
  by (simp add: elf_section_data_def)

lemma elf_build_id_good:
  assumes "\<And>f. fd = Some f \<Longrightarrow> good_file f" and "length old = 100"
  shows "\<exists>n bid. elf_build_id fd old = Return (int n, bid) \<and> n \<le> 100 \<and> length bid = 100"
proof (cases "fd = None \<or> elf_section (the fd) ''.note.gnu.build-id'' = None")
  case True
  then show ?thesis using assms
    by (cases fd) (auto simp: elf_build_id_def elf_section_data_None elf_section_data_of good_file_def intro: exI [of _ 0])
next
  case False
  then obtain f i where "fd = Some f" "readable f" "elf_section f ''.note.gnu.build-id'' = Some (build_id_note i)" "length i \<le> 100"
    using assms(1) by (auto simp: good_file_def)
  with elf_build_id_decodes [of f i old] assms(2) show ?thesis by auto
qed

lemma elf_debug_link_good:
  assumes "\<And>f. fd = Some f \<Longrightarrow> good_file f"
  shows "\<exists>crc fname. elf_debug_link fd old = Return (crc, fname) \<and> (crc = 0 \<or> length fname \<le> 992)"
proof (cases "fd = None \<or> elf_section (the fd) ''.gnu_debuglink'' = None")
  case True
  then show ?thesis using assms
    by (cases fd) (auto simp: elf_debug_link_def elf_section_data_None elf_section_data_of good_file_def)
next
  case False
  then obtain f name crc where "fd = Some f" "readable f" "elf_section f ''.gnu_debuglink'' = Some (debug_link_data name crc)"
    "length name \<le> 992" "0 \<notin> set name"
    using assms by (auto simp: good_file_def)
  with elf_debug_link_decodes [of f name crc old] show ?thesis by auto
qed

lemma debug_valid_good: "good_files fs \<Longrightarrow> \<exists>v. debug_valid fs st p = Return v"
proof (cases "fs p")
  case (Some f)
  assume "good_files fs"
  with Some obtain n bid where "elf_build_id (Some f) (replicate 100 0) = Return (int n, bid)"
    using elf_build_id_good [of "Some f" "replicate 100 0"] by (auto simp: good_files_def)
  then show ?thesis using Some by (auto simp: debug_valid_def)
qed (auto simp: debug_valid_def)

lemma length_print_hex_byte: "length (print_hex 2 (unat (b :: u8))) = 2"
proof -
  have "unat b < 256" using unsigned_less [of b] by simp
  then have "length (print_base 16 (unat b)) \<le> 2"
    by (subst print_base.simps, subst print_base.simps) (auto simp: less_mult_imp_div_less)
  then show ?thesis by (simp add: print_hex_def)
qed

lemma paths_fit:
  assumes "dbg_ok st"
  shows "length (build_id_path st) < 2048" "length (same_dir_path st) < 2048"
    "length (sub_dir_path st) < 2048" "length (usr_lib_path st) < 2048"
proof -
  have "length (concat (map (\<lambda>i. print_hex 2 (unat (g_build_id st ! i))) is)) = 2 * length is" for "is"
    by (induction "is") (simp_all add: length_print_hex_byte)
  moreover have "nat (g_buildid_len st) \<le> 100" using assms by (simp add: dbg_ok_def nat_le_iff)
  ultimately show "length (build_id_path st) < 2048"
    using assms by (simp add: build_id_path_def length_print_hex_byte dbg_ok_def)
qed (use assms in \<open>simp_all add: dbg_ok_def same_dir_path_def sub_dir_path_def usr_lib_path_def\<close>)

lemma debug_try_init_fits:
  assumes "good_files fs" and "take 1 path = ''/''" and "length path < 1018" and "length (g_build_id st) = 100"
  shows "\<exists>st'. debug_try_init fs path exe_self st = Return st' \<and> dbg_ok st' \<and> g_index st' = 0 \<and>
    g_path st' = path \<and> g_exe_self st' = exe_self"
proof -
  obtain c cs where path: "path = c # cs" "c = CHR ''/''" using assms(2) by (cases path) auto
  then obtain p where p: "strchr_last path (CHR ''/'') = Some p" by (cases "strchr_last cs (CHR ''/'')") auto
  then have lp: "p < length path" using strchr_last_Some by blast
  obtain n bid where b: "elf_build_id (fs path) (g_build_id st) = Return (int n, bid)" "n \<le> 100" "length bid = 100"
    using elf_build_id_good [of "fs path" "g_build_id st"] assms(1,4) by (auto simp: good_files_def)
  obtain crc fname where d: "elf_debug_link (fs path) (g_debug_fname st) = Return (crc, fname)"
      "crc = 0 \<or> length fname \<le> 992"
    using elf_debug_link_good [of "fs path" "g_debug_fname st"] assms(1) by (auto simp: good_files_def)
  show ?thesis using assms(3) p lp b d by (auto simp: debug_try_init_def dbg_ok_def Let_def)
qed

section \<open>The order of the candidates\<close>

text \<open>
  The files offered, with the value of \<open>g_index\<close> after the offer: the file of the option \<open>-d\<close> for the program itself, the
  file itself, and of the four places for separate debug files those that hold a valid one.
\<close>

definition places :: "dbg \<Rightarrow> (nat \<times> string) list" where
  "places st = (if g_buildid_len st \<noteq> 0 then [(3, build_id_path st)] else []) @
     [(4, same_dir_path st), (5, sub_dir_path st), (6, usr_lib_path st)]"

definition all_offers :: "files \<Rightarrow> string option \<Rightarrow> dbg \<Rightarrow> (nat \<times> string) list" where
  "all_offers fs opt_file st =
     (if g_exe_self st then (case opt_file of Some f \<Rightarrow> [(1, f)] | None \<Rightarrow> []) else []) @
     (2, g_path st) # filter (\<lambda>(i, p). debug_valid fs st p = Return True) (places st)"

definition offers :: "files \<Rightarrow> string option \<Rightarrow> dbg \<Rightarrow> (nat \<times> string) list" where
  "offers fs opt_file st = filter (\<lambda>(i, p). g_index st < i) (all_offers fs opt_file st)"

lemma index_frame [simp]:
  "debug_valid fs (st\<lparr>g_index := i\<rparr>) p = debug_valid fs st p"
  "build_id_path (st\<lparr>g_index := i\<rparr>) = build_id_path st" "same_dir_path (st\<lparr>g_index := i\<rparr>) = same_dir_path st"
  "sub_dir_path (st\<lparr>g_index := i\<rparr>) = sub_dir_path st" "usr_lib_path (st\<lparr>g_index := i\<rparr>) = usr_lib_path st"
  by (simp_all add: debug_valid_def build_id_path_def same_dir_path_def sub_dir_path_def usr_lib_path_def
      split: option.split)

lemma all_offers_index [simp]:
  "all_offers fs opt_file (st\<lparr>g_index := i\<rparr>) = all_offers fs opt_file st"
  by (simp add: all_offers_def places_def)

text \<open>The option's file has to be valid; if it is not, the program ends with status 4.\<close>

definition option_rejected :: "files \<Rightarrow> string option \<Rightarrow> dbg \<Rightarrow> bool" where
  "option_rejected fs opt_file st \<longleftrightarrow> g_index st = 0 \<and> g_exe_self st \<and>
     (case opt_file of Some f \<Rightarrow> debug_valid fs st f \<noteq> Return True | None \<Rightarrow> False)"

definition valid_file :: "files \<Rightarrow> dbg \<Rightarrow> string \<Rightarrow> bool" where
  "valid_file fs st p \<longleftrightarrow> debug_valid fs st p = Return True"

lemma valid_file_index [simp]: "valid_file fs (st\<lparr>g_index := i\<rparr>) p = valid_file fs st p"
  by (simp add: valid_file_def)

lemma debug_valid_file: "good_files fs \<Longrightarrow> debug_valid fs st p = Return (valid_file fs st p)"
  using debug_valid_good [of fs st p] by (auto simp: valid_file_def)

text \<open>The cases of the switch when no buffer is overrun.\<close>

lemma try_cases:
  assumes "good_files fs" and "dbg_ok st"
  shows "try_case5 fs st =
      Return (if valid_file fs st (usr_lib_path st) then Some (usr_lib_path st) else None, st\<lparr>g_index := 6\<rparr>)"
    and "try_case4 fs st =
      (if valid_file fs st (sub_dir_path st) then Return (Some (sub_dir_path st), st\<lparr>g_index := 5\<rparr>)
       else try_case5 fs (st\<lparr>g_index := 5\<rparr>))"
    and "try_case3 fs st =
      (if valid_file fs st (same_dir_path st) then Return (Some (same_dir_path st), st\<lparr>g_index := 4\<rparr>)
       else try_case4 fs (st\<lparr>g_index := 4\<rparr>))"
    and "try_case2 fs st =
      (if g_buildid_len st \<noteq> 0 \<and> valid_file fs st (build_id_path st) then Return (Some (build_id_path st), st\<lparr>g_index := 3\<rparr>)
       else try_case3 fs (st\<lparr>g_index := 3\<rparr>))"
    and "try_case0 fs opt st =
      (case if g_exe_self st then opt else None of
         Some f \<Rightarrow> if valid_file fs st f then Return (Some f, st\<lparr>g_index := 1\<rparr>) else Exit 4
       | None \<Rightarrow> Return (Some (g_path st), st\<lparr>g_index := 2\<rparr>))"
  using paths_fit [OF assms(2)]
  by (simp_all add: try_case5_def try_case4_def try_case3_def try_case2_def try_case0_def try_case1_def try_path_def Let_def
      debug_valid_file [OF assms(1)] split: option.split)

lemma debug_try_get_offers:
  assumes "good_files fs" and "dbg_ok st" and "\<not> option_rejected fs opt_file st"
  shows "debug_try_get fs opt_file st = Return (case offers fs opt_file st of
      [] \<Rightarrow> (None, st\<lparr>g_index := 6\<rparr>) | (i, p) # ps \<Rightarrow> (Some p, st\<lparr>g_index := i\<rparr>))"
proof -
  note steps = try_cases [OF assms(1,2)] try_cases [OF assms(1) dbg_ok_index [OF assms(2)]]
  note get = debug_try_get_def offers_def all_offers_def places_def debug_valid_file [OF assms(1)]
  have "g_index st \<le> 6" using assms(2) by (simp add: dbg_ok_def)
  then consider "g_index st = 0" | "g_index st = 1" | "g_index st = 2" | "g_index st = 3" | "g_index st = 4"
    | "g_index st = 5" | "g_index st = 6" by linarith
  then show ?thesis
  proof cases
    case 1
    then show ?thesis using assms(3)
      by (cases opt_file; cases "g_exe_self st") (simp_all add: get option_rejected_def steps)
  next
    case 2
    then have "\<exists>ps. offers fs opt_file st = (2, g_path st) # ps"
      unfolding offers_def all_offers_def by (cases opt_file; cases "g_exe_self st") simp_all
    moreover have "debug_try_get fs opt_file st = try_case1 st" using 2 by (simp add: debug_try_get_def)
    ultimately show ?thesis by (auto simp: try_case1_def)
  qed (cases opt_file; cases "g_exe_self st"; simp add: get steps)+
qed

text \<open>The offers come in the order of their indices, so taking the first leaves the others.\<close>

lemma filter_less_tl:
  "sorted_wrt (\<lambda>x y. fst x < fst y) xs \<Longrightarrow> filter (\<lambda>(i, p). k < i) xs = (i, p) # ps \<Longrightarrow>
     filter (\<lambda>(j, p). (i :: nat) < j) xs = ps"
proof (induction xs)
  case (Cons x xs)
  show ?case
  proof (cases "k < fst x")
    case True
    then have "x = (i, p)" "filter (\<lambda>(i, p). k < i) xs = ps" using Cons.prems(2) by (auto split: prod.splits)
    moreover have "filter (\<lambda>(j, p). i < j) xs = xs" "filter (\<lambda>(j, p). k < j) xs = xs"
      using Cons.prems(1) True \<open>x = (i, p)\<close> by (auto intro!: filter_True)
    ultimately show ?thesis by simp
  next
    case False
    then have f: "filter (\<lambda>(i, p). k < i) xs = (i, p) # ps" using Cons.prems(2) by (auto split: prod.splits)
    have "(i, p) \<in> set (filter (\<lambda>(i, p). k < i) xs)" by (simp add: f)
    then have "(i, p) \<in> set xs" by simp
    then have "fst x < i" using Cons.prems(1) by auto
    with Cons f show ?thesis by (auto split: prod.splits)
  qed
qed simp

lemma places_indices: "x \<in> set (places st) \<Longrightarrow> 3 \<le> fst x \<and> fst x \<le> 6"
  by (auto simp: places_def split: if_splits)

lemma all_offers_sorted: "sorted_wrt (\<lambda>x y. fst x < fst y) (all_offers fs opt_file st)"
proof -
  have "sorted_wrt (\<lambda>x y. fst x < fst y) (places st)" by (simp add: places_def)
  then have "sorted_wrt (\<lambda>x y. fst x < fst y) (filter (\<lambda>(i, p). debug_valid fs st p = Return True) (places st))"
    by (rule sorted_wrt_filter)
  then show ?thesis
    by (cases opt_file) (auto simp: all_offers_def dest!: places_indices)
qed

lemma offers_rest:
  assumes "offers fs opt_file st = (i, p) # ps"
  shows "offers fs opt_file (st\<lparr>g_index := i\<rparr>) = ps"
  using filter_less_tl [OF all_offers_sorted assms [unfolded offers_def]] by (simp add: offers_def)

lemma offers_index:
  assumes "offers fs opt_file st = (i, p) # ps"
  shows "g_index st < i \<and> i \<le> 6"
proof -
  have "x \<in> set (all_offers fs opt_file st) \<Longrightarrow> fst x \<le> 6" for x
    unfolding all_offers_def by (cases opt_file; cases "g_exe_self st") (auto dest: places_indices)
  moreover have "(i, p) \<in> set (offers fs opt_file st)" using assms by simp
  ultimately show ?thesis by (force simp: offers_def)
qed

lemma offers_all:
  assumes "g_index st = 0"
  shows "offers fs opt_file st = all_offers fs opt_file st"
proof -
  have "0 < fst x" if "x \<in> set (all_offers fs opt_file st)" for x
    using that unfolding all_offers_def
    by (cases opt_file; cases "g_exe_self st") (auto dest: places_indices)
  then show ?thesis
    unfolding offers_def using assms by (intro filter_True) (auto split: prod.split)
qed

text \<open>The search over the list of the offers.\<close>

fun try_offers :: "(string \<Rightarrow> 't \<Rightarrow> (int \<times> 't) run) \<Rightarrow> string list \<Rightarrow> 't \<Rightarrow> (string option \<times> 't) run" where
  "try_offers build [] tab = Return (None, tab)"
| "try_offers build (p # ps) tab =
     run_bind (build p tab) (\<lambda>(n, tab). if n > 0 then Return (Some p, tab) else try_offers build ps tab)"

lemma debug_try_loop_offers:
  assumes "good_files fs" and "dbg_ok st" and "\<not> option_rejected fs opt_file st"
  shows "run_bind (debug_try_loop fs opt_file build st tab) (\<lambda>(p, st, tab). Return (p, tab)) =
    try_offers build (map snd (offers fs opt_file st)) tab"
  using assms
proof (induction "6 - g_index st" arbitrary: st tab rule: less_induct)
  case less
  note get = debug_try_get_offers [OF less(2-4)]
  show ?case
  proof (cases "offers fs opt_file st")
    case Nil
    then show ?thesis using get by (subst debug_try_loop.simps) simp
  next
    case (Cons x ps)
    obtain i p where x: "x = (i, p)" by (cases x)
    note off = Cons [unfolded x]
    have i: "g_index st < i" "i \<le> 6" using offers_index [OF off] by auto
    then have IH: "run_bind (debug_try_loop fs opt_file build (st\<lparr>g_index := i\<rparr>) tab') (\<lambda>(p, st, tab). Return (p, tab)) =
        try_offers build (map snd ps) tab'" for tab'
      using less(1) [of "st\<lparr>g_index := i\<rparr>" tab'] less(2-3) offers_rest [OF off]
      by (simp add: dbg_ok_index option_rejected_def)
    show ?thesis using get off IH
      by (subst debug_try_loop.simps, cases "build p tab") (auto split: if_splits)
  qed
qed

section \<open>Properties\<close>

text \<open>C27 (debug_info_decoded): from a file with the two sections in the GNU formats, the build id and
  the name and checksum of the debug file are read back exactly, whatever the buffers hold before.\<close>

theorem debug_info_decoded:
  assumes "readable f" and "elf_section f ''.note.gnu.build-id'' = Some (build_id_note i)" and "length i \<le> 100"
    and "elf_section f ''.gnu_debuglink'' = Some (debug_link_data name crc)" and "length name \<le> 992" and "0 \<notin> set name"
    and "length old = 100"
  shows "elf_build_id (Some f) old = Return (int (length i), i @ drop (length i) old) \<and>
    elf_debug_link (Some f) fname = Return (crc, map (\<lambda>b. char_of (unat b)) name)"
  using elf_build_id_decodes [OF assms(1,2,3,7)] elf_debug_link_decodes [OF assms(1,4,5,6)] by blast

definition demo_file :: dfile where
  "demo_file = \<lparr>df_elf = Some \<lparr>ehdr_ok = True, strtab_ok = True, elf_scns =
      [Some (''.text'', Some [0x90]), Some (''.note.gnu.build-id'', Some (build_id_note [0xAB, 0x0C])),
       Some (''.gnu_debuglink'', Some (debug_link_data [0x61, 0x2E, 0x64] 0x12345678))]\<rparr>,
     df_reads = [Some [0x31]], df_stack = replicate 1000 0xFF\<rparr>"

lemma demo_file_sections:
  "readable demo_file" "elf_section demo_file ''.note.gnu.build-id'' = Some (build_id_note [0xAB, 0x0C])"
  "elf_section demo_file ''.gnu_debuglink'' = Some (debug_link_data [0x61, 0x2E, 0x64] 0x12345678)"
  by (simp_all add: readable_def demo_file_def elf_section_def)

lemma demo_file_good: "good_file demo_file"
proof -
  have "length [0xAB, 0x0C :: u8] \<le> 100" "length [0x61, 0x2E, 0x64 :: u8] \<le> 992 \<and> 0 \<notin> set [0x61, 0x2E, 0x64 :: u8]" by simp_all
  then show ?thesis
    unfolding good_file_def demo_file_sections option.inject using demo_file_sections(1) by metis
qed

theorem debug_info_decoded_witness:
  "elf_build_id (Some demo_file) (replicate 100 0) = Return (2, [0xAB, 0x0C] @ replicate 98 0) \<and>
   elf_debug_link (Some demo_file) [] = Return (0x12345678, ''a.d'')"
proof -
  have "map (\<lambda>b. char_of (unat b)) [0x61, 0x2E, 0x64 :: u8] = ''a.d''" by code_simp
  then show ?thesis
    using debug_info_decoded [OF demo_file_sections(1,2) _ demo_file_sections(3), of "replicate 100 0" "[]"] by simp
qed

text \<open>The build id of a file.\<close>

definition has_build_id :: "dfile \<Rightarrow> u8 list \<Rightarrow> bool" where
  "has_build_id f i \<longleftrightarrow> elf_section f ''.note.gnu.build-id'' = Some (build_id_note i)"

lemma build_id_note_inj: "build_id_note i = build_id_note j \<longleftrightarrow> i = j"
proof
  assume "build_id_note i = build_id_note j"
  then have "drop 16 (build_id_note i) = drop 16 (build_id_note j)" by simp
  then show "i = j" by (simp add: build_id_note_def)
qed simp

lemma debug_valid_build_id:
  assumes "good_file f" and "fs p = Some f" and "dbg_ok st" and "g_buildid_len st \<noteq> 0"
  shows "debug_valid fs st p = Return (has_build_id f (take (nat (g_buildid_len st)) (g_build_id st)))"
proof (cases "elf_section f ''.note.gnu.build-id''")
  case None
  then have "elf_build_id (Some f) (replicate 100 0) = Return (0, replicate 100 0)"
    using assms(1) by (simp add: elf_build_id_def elf_section_data_of good_file_def)
  then show ?thesis using assms None by (simp add: debug_valid_def has_build_id_def)
next
  case (Some d)
  then obtain j where j: "d = build_id_note j" "length j \<le> 100" using assms(1) by (auto simp: good_file_def)
  then have "elf_build_id (Some f) (replicate 100 0) = Return (int (length j), j @ replicate (100 - length j) 0)"
    using elf_build_id_decodes [of f j "replicate 100 0"] assms(1) Some by (simp add: good_file_def)
  moreover have "int (length j) = g_buildid_len st \<and> take (length j) (g_build_id st) = j \<longleftrightarrow>
      j = take (nat (g_buildid_len st)) (g_build_id st)"
    using assms(3) by (auto simp: dbg_ok_def min_def dest: arg_cong [of _ _ nat])
  ultimately show ?thesis using assms Some j by (auto simp: debug_valid_def has_build_id_def build_id_note_inj)
qed

text \<open>C25 (debug_valid_exact): a candidate is accepted exactly if it exists and has the build id of the
  program, or, when the program has none, the checksum of the program's debug link (the CRC-32 of the
  candidate's bytes), or when there is neither.\<close>

theorem debug_valid_exact:
  assumes "good_files fs" and "dbg_ok st"
  shows "debug_valid fs st p = Return (case fs p of
      None \<Rightarrow> False
    | Some f \<Rightarrow>
        if g_buildid_len st \<noteq> 0 then has_build_id f (take (nat (g_buildid_len st)) (g_build_id st))
        else if g_debug_crc32 st \<noteq> 0 then crc32_spec (file_bytes (df_reads f)) = g_debug_crc32 st
        else True)"
proof (cases "fs p")
  case (Some f)
  then have "good_file f" using assms(1) by (auto simp: good_files_def)
  with debug_valid_build_id [of f fs p st] assms(2) Some show ?thesis
    by (auto simp: debug_valid_def file_crc32_spec)
qed (simp add: debug_valid_def)

definition demo_files :: files where
  "demo_files p = (if p = ''/bin/a'' \<or> p = ''/bin/a.d'' then Some demo_file else None)"

lemma demo_files_good: "good_files demo_files"
  by (simp add: good_files_def demo_files_def demo_file_good)

definition demo_dbg :: dbg where
  "demo_dbg = init_dbg\<lparr>g_path := ''/bin/a'', g_dir := ''/bin'', g_debug_fname := ''a.d'', g_build_id := [0xAB, 0x0C] @ replicate 98 0,
     g_buildid_len := 2\<rparr>"

theorem debug_valid_exact_witness:
  "debug_valid demo_files demo_dbg ''/bin/a.d'' = Return True \<and> debug_valid demo_files demo_dbg ''/bin/b'' = Return False"
proof -
  have ok: "dbg_ok demo_dbg" by (simp add: dbg_ok_def demo_dbg_def init_dbg_def)
  show ?thesis
    using debug_valid_exact [OF demo_files_good ok, of "''/bin/a.d''"] debug_valid_exact [OF demo_files_good ok, of "''/bin/b''"]
    by (simp add: demo_files_def demo_dbg_def init_dbg_def has_build_id_def demo_file_sections)
qed

lemma debug_try_get_rejected:
  assumes "good_files fs" and "option_rejected fs opt_file st"
  shows "debug_try_get fs opt_file st = Exit 4"
proof -
  from assms(2) obtain f where f: "opt_file = Some f" "g_index st = 0" "g_exe_self st" "debug_valid fs st f \<noteq> Return True"
    by (cases opt_file) (auto simp: option_rejected_def)
  moreover obtain v where "debug_valid fs st f = Return v" using debug_valid_good [OF assms(1)] by blast
  ultimately show ?thesis by (simp add: debug_try_get_def try_case0_def)
qed

lemma debug_try_get_fits:
  assumes "good_files fs" and "dbg_ok st"
  shows "debug_try_get fs opt_file st = Exit 4 \<or>
    (\<exists>r st'. debug_try_get fs opt_file st = Return (r, st') \<and> dbg_ok st')"
proof (cases "option_rejected fs opt_file st")
  case True
  then show ?thesis using debug_try_get_rejected [OF assms(1)] by simp
next
  case False
  show ?thesis
  proof (cases "offers fs opt_file st")
    case Nil
    then show ?thesis using debug_try_get_offers [OF assms False] dbg_ok_index [OF assms(2)] by auto
  next
    case (Cons x ps)
    obtain i p where x: "x = (i, p)" by (cases x)
    then show ?thesis
      using debug_try_get_offers [OF assms False] dbg_ok_index [OF assms(2), of i] offers_index [of fs opt_file st i p ps] Cons
      by auto
  qed
qed

lemma debug_try_loop_ok:
  assumes "good_files fs" and "dbg_ok st" and "debug_try_loop fs opt_file build st tab = Return (p, st', tab')"
  shows "dbg_ok st'"
  using assms
proof (induction "6 - g_index st" arbitrary: st tab rule: less_induct)
  case less
  from less(4) obtain r s where g: "debug_try_get fs opt_file st = Return (r, s)"
    by (subst (asm) debug_try_loop.simps) (auto simp: run_bind_Return)
  with debug_try_get_fits [OF less(2,3), of opt_file] have s: "dbg_ok s" by auto
  show ?case
  proof (cases r)
    case None
    then show ?thesis using less(4) g s by (subst (asm) debug_try_loop.simps) auto
  next
    case (Some q)
    then obtain n tab1 where "build q tab = Return (n, tab1)"
        "if n > 0 then (p, st', tab') = (Some q, s, tab1) else debug_try_loop fs opt_file build s tab1 = Return (p, st', tab')"
      using less(4) g by (subst (asm) debug_try_loop.simps) (auto simp: run_bind_Return split: if_splits)
    moreover have "6 - g_index s < 6 - g_index st" using debug_try_get_index [of fs opt_file st q s] g Some by auto
    ultimately show ?thesis using less(1) [of s tab1] less(2) s by (auto split: if_splits)
  qed
qed

text \<open>C26 (debug_try_fits): on files whose two sections are in the GNU formats, and for an absolute path of
  less than 1018 characters, no buffer is overrun: the initialisation returns, the static variables hold
  what fits their arrays, the names of all four places fit \<open>debug_path[2048]\<close>, and every later call
  of \<open>debug_try_get\<close> returns (or ends the program with status 4) and keeps this.\<close>

theorem debug_try_fits:
  assumes "good_files fs" and "take 1 path = ''/''" and "length path < 1018" and "length (g_build_id st) = 100"
  shows "\<exists>st'. debug_try_init fs path exe_self st = Return st' \<and> dbg_ok st' \<and>
    (\<forall>s. dbg_ok s \<longrightarrow>
       length (build_id_path s) < 2048 \<and> length (same_dir_path s) < 2048 \<and>
       length (sub_dir_path s) < 2048 \<and> length (usr_lib_path s) < 2048 \<and>
       (debug_try_get fs opt_file s = Exit 4 \<or>
        (\<exists>r s'. debug_try_get fs opt_file s = Return (r, s') \<and> dbg_ok s')))"
proof -
  obtain st' where "debug_try_init fs path exe_self st = Return st'" "dbg_ok st'"
    using debug_try_init_fits [OF assms] by blast
  with paths_fit debug_try_get_fits [OF assms(1)] show ?thesis by blast
qed

theorem debug_try_fits_witness:
  "\<exists>st'. debug_try_init demo_files ''/bin/a'' True init_dbg = Return st' \<and> dbg_ok st' \<and> length (usr_lib_path st') < 2048"
  using debug_try_fits [OF demo_files_good, of "''/bin/a''" init_dbg True None] by (auto simp: init_dbg_def)

text \<open>C12 (debug_try_order): the search for symbols or lines of a file with \<open>debug_try_init\<close> and the loop over
  \<open>debug_try_get\<close> is the search through a list: the file of the option \<open>-d\<close> (for the program itself), the
  file itself, then the valid ones among the file under the build id, in the same directory, in its
  subdirectory \<open>.debug\<close> and under \<open>/usr/lib/debug\<close>, in this order; it ends at the first that
  gives something, and after at most six. An invalid file of the option \<open>-d\<close> ends the program with
  status 4.\<close>

theorem debug_try_order:
  assumes "good_files fs" and "take 1 path = ''/''" and "length path < 1018" and "length (g_build_id st) = 100"
  shows "\<exists>st'. debug_try_init fs path exe_self st = Return st' \<and> g_path st' = path \<and> g_exe_self st' = exe_self \<and>
    run_bind (debug_try_loop fs opt_file build st' tab) (\<lambda>(p, st, tab). Return (p, tab)) =
      (case if exe_self then opt_file else None of
         Some f \<Rightarrow> if debug_valid fs st' f = Return True then try_offers build (map snd (all_offers fs opt_file st')) tab
                    else Exit 4
       | None \<Rightarrow> try_offers build (map snd (all_offers fs opt_file st')) tab) \<and>
    length (all_offers fs opt_file st') \<le> 6"
proof -
  obtain st' where st': "debug_try_init fs path exe_self st = Return st'" "dbg_ok st'" "g_index st' = 0" "g_path st' = path"
      "g_exe_self st' = exe_self"
    using debug_try_init_fits [OF assms(1-4)] by blast
  have rejected: "debug_try_loop fs opt_file build st' tab = Exit 4" if "option_rejected fs opt_file st'"
    using debug_try_get_rejected [OF assms(1) that] by (subst debug_try_loop.simps) simp
  note loop = debug_try_loop_offers [OF assms(1) st'(2), of opt_file build tab]
  have "offers fs opt_file st' = all_offers fs opt_file st'" using st'(3) by (rule offers_all)
  moreover have "length (places st') \<le> 4" by (simp add: places_def)
  then have "length (all_offers fs opt_file st') \<le> 6"
    unfolding all_offers_def
    by (cases opt_file; cases "g_exe_self st'") (auto intro: le_trans [OF length_filter_le])
  ultimately show ?thesis using st' loop rejected
    by (cases opt_file; cases exe_self) (auto simp: option_rejected_def)
qed

theorem debug_try_order_witness:
  "\<exists>st'. debug_try_init demo_files ''/bin/a'' False init_dbg = Return st' \<and>
    run_bind (debug_try_loop demo_files None (\<lambda>p n. Return (if p = ''/bin/a'' then 7 else 0, n + 1)) st' (0 :: nat))
      (\<lambda>(p, st, tab). Return (p, tab)) = Return (Some ''/bin/a'', 1)"
  using debug_try_order [OF demo_files_good, of "''/bin/a''" init_dbg False None "\<lambda>p n. Return (if p = ''/bin/a'' then 7 else 0, n + 1)" "0 :: nat"]
  by (auto simp: init_dbg_def all_offers_def)

end
