(* ===== verification/Table_Build.thy ===== *)
theory Table_Build
  imports Sym_Tab Debug_Line Addr_Maps Proc_Info Debug_File
begin

text \<open>
  The builders that combine the components: \<open>symtab_build\<close> of \<open>src/symtab.c\<close>, \<open>debug_line_build\<close> of
  \<open>src/debug_line.c\<close> and \<open>addr_maps_build\<close> of \<open>src/addr_maps.c\<close> walk through the mappings that
  \<open>proc_maps\<close> delivers; the first two try for each mapping the candidates of \<open>debug_try_get\<close> until
  one has symbols or lines. The locale \<open>table_source\<close> is the contract of the function that reads one file;
  it is interpreted on the symbol reader and on the line reader.
\<close>

section \<open>The program\<close>

text \<open>The body of the loop over the mappings, for a function \<open>build\<close> that reads one file.\<close>

definition build_mapping ::
  "files \<Rightarrow> string option \<Rightarrow> (string \<Rightarrow> u64 \<Rightarrow> u64 \<Rightarrow> 't \<Rightarrow> (int \<times> 't) run) \<Rightarrow> mapping \<Rightarrow> dbg \<times> 't \<Rightarrow> (dbg \<times> 't) run" where
  "build_mapping fs opt_file build mp s =
     (case mp of (path, start, end, exe_self) \<Rightarrow> case s of (st, tab) \<Rightarrow>
        run_bind (debug_try_init fs path exe_self st) (\<lambda>st.
        run_bind (debug_try_loop fs opt_file (\<lambda>debugp. build debugp start end) st tab) (\<lambda>(debugp, st, tab).
          Return (st, tab))))"

definition symtab_build ::
  "(nat \<Rightarrow> bool) \<Rightarrow> (string \<Rightarrow> elf_file option option) \<Rightarrow> files \<Rightarrow> string option \<Rightarrow> procfs \<Rightarrow> maps_state \<Rightarrow> dbg \<Rightarrow>
     symbol_s array_s \<Rightarrow> (maps_state \<times> dbg \<times> symbol_s array_s) run" where
  "symtab_build mem_ok open_file fs opt_file pf ms st g_symbol_table =
     run_bind (proc_maps_each pf (build_mapping fs opt_file (symtab_build_file mem_ok open_file)) ms (st, g_symbol_table))
       (\<lambda>((st, tab), ms). Return (ms, st, symtab_finish tab))"

text \<open>\<open>open_elf\<close> gives what \<open>debug_line_build_file\<close> sees of a file, \<open>dwarf\<close> reads its lines.\<close>

definition debug_line_build ::
  "(string \<Rightarrow> nat option option) \<Rightarrow>
     (string \<Rightarrow> u64 \<Rightarrow> dwarf_die_s array_s \<Rightarrow> (int \<times> dwarf_die_s array_s) run) \<Rightarrow>
     files \<Rightarrow> string option \<Rightarrow> procfs \<Rightarrow> maps_state \<Rightarrow> dbg \<Rightarrow> dwarf_die_s array_s \<Rightarrow>
     (maps_state \<times> dbg \<times> dwarf_die_s array_s) run" where
  "debug_line_build open_elf dwarf fs opt_file pf ms st g_dwarf_dies =
     run_bind (proc_maps_each pf (build_mapping fs opt_file
          (\<lambda>path. debug_line_build_file (open_elf path) (dwarf path))) ms (st, g_dwarf_dies))
       (\<lambda>((st, tab), ms). Return (ms, st, debug_line_finish tab))"

section \<open>Reading one file\<close>

text \<open>What the first file of a list that has items contributes, and what a mapping contributes.\<close>

definition first_items :: "(string \<Rightarrow> u64 \<Rightarrow> 'x list) \<Rightarrow> string list \<Rightarrow> u64 \<Rightarrow> 'x list" where
  "first_items items ps start = (case filter (\<lambda>p. items p start \<noteq> []) ps of [] \<Rightarrow> [] | p # _ \<Rightarrow> items p start)"

definition mapping_items :: "files \<Rightarrow> (string \<Rightarrow> u64 \<Rightarrow> 'x list) \<Rightarrow> mapping \<Rightarrow> 'x list \<Rightarrow> bool" where
  "mapping_items fs items mp xs \<longleftrightarrow>
     (case mp of (path, start, end, exe_self) \<Rightarrow>
        \<exists>st st'. debug_try_init fs path exe_self st = Return st' \<and>
          xs = first_items items (map snd (all_offers fs None st')) start)"

locale table_source =
  fixes build :: "string \<Rightarrow> u64 \<Rightarrow> u64 \<Rightarrow> 't \<Rightarrow> (int \<times> 't) run"
    and holds :: "'t \<Rightarrow> 'x list \<Rightarrow> bool"
    and items :: "string \<Rightarrow> u64 \<Rightarrow> 'x list"
  assumes build_appends: "holds tab xs \<Longrightarrow>
    \<exists>n tab'. build p start end tab = Return (n, tab') \<and> holds tab' (xs @ items p start) \<and> (0 < n \<longleftrightarrow> items p start \<noteq> [])"
begin

lemma try_offers_first:
  assumes "holds tab xs"
  shows "\<exists>r tab'. try_offers (\<lambda>p. build p start end) ps tab = Return (r, tab') \<and> holds tab' (xs @ first_items items ps start)"
  using assms
proof (induction ps arbitrary: tab)
  case (Cons p ps)
  obtain n tab' where b: "build p start end tab = Return (n, tab')" "holds tab' (xs @ items p start)"
      "0 < n \<longleftrightarrow> items p start \<noteq> []"
    using build_appends [OF Cons.prems] by blast
  show ?case
  proof (cases "items p start = []")
    case True
    then show ?thesis using b Cons.IH [of tab'] by (simp add: first_items_def)
  next
    case False
    then show ?thesis using b by (simp add: first_items_def)
  qed
qed (simp add: first_items_def)

lemma build_mapping_appends:
  assumes fs: "good_files fs" and mp: "mp = (path, start, end, exe_self)" "take 1 path = ''/''" "length path < 1018"
    and st: "length (g_build_id st) = 100" and tab: "holds tab xs"
  shows "\<exists>st' tab' ys. build_mapping fs None build mp (st, tab) = Return (st', tab') \<and>
    length (g_build_id st') = 100 \<and> holds tab' (xs @ ys) \<and> mapping_items fs items mp ys"
proof -
  obtain st1 where st1: "debug_try_init fs path exe_self st = Return st1" "dbg_ok st1" "g_index st1 = 0"
    using debug_try_init_fits [OF fs mp(2,3) st] by blast
  let ?b = "\<lambda>p. build p start end"
  have "run_bind (debug_try_loop fs None ?b st1 tab) (\<lambda>(p, st, tab). Return (p, tab)) =
      try_offers ?b (map snd (all_offers fs None st1)) tab"
    using debug_try_loop_offers [OF fs st1(2), of None ?b tab] offers_all [OF st1(3)] by (simp add: option_rejected_def)
  with try_offers_first [OF tab, of start "end" "map snd (all_offers fs None st1)"]
  obtain p st' tab' where "debug_try_loop fs None ?b st1 tab = Return (p, st', tab')"
      "holds tab' (xs @ first_items items (map snd (all_offers fs None st1)) start)"
    by (auto simp: run_bind_Return)
  moreover from this(1) have "dbg_ok st'" by (rule debug_try_loop_ok [OF fs st1(2)])
  ultimately show ?thesis using st1
    by (auto simp: build_mapping_def mp mapping_items_def dbg_ok_def)
qed

lemma build_mappings_append:
  assumes fs: "good_files fs" and "\<forall>(path, start, end, exe_self) \<in> set mps. take 1 path = ''/'' \<and> length path < 1018"
    and st: "length (g_build_id st) = 100" and tab: "holds tab xs"
  shows "\<exists>st' tab' yss. run_fold (build_mapping fs None build) mps (st, tab) = Return (st', tab') \<and>
    holds tab' (xs @ concat yss) \<and> list_all2 (mapping_items fs items) mps yss"
  using assms(2-4)
proof (induction mps arbitrary: st tab xs)
  case (Cons mp mps)
  obtain path start "end" exe_self where mp: "mp = (path, start, end, exe_self)" by (cases mp)
  then obtain st1 tab1 ys where 1: "build_mapping fs None build mp (st, tab) = Return (st1, tab1)"
      "length (g_build_id st1) = 100" "holds tab1 (xs @ ys)" "mapping_items fs items mp ys"
    using build_mapping_appends [OF fs mp _ _ Cons.prems(2,3)] Cons.prems(1) by auto
  from Cons.IH [OF _ 1(2,3)] Cons.prems(1) obtain st' tab' yss where
    "run_fold (build_mapping fs None build) mps (st1, tab1) = Return (st', tab')"
    "holds tab' ((xs @ ys) @ concat yss)" "list_all2 (mapping_items fs items) mps yss" by auto
  with 1 show ?case by (intro exI [of _ st'] exI [of _ tab'] exI [of _ "ys # yss"]) simp
qed simp

end

section \<open>Symbols\<close>

definition section_symbols :: "(nat \<Rightarrow> nat \<Rightarrow> string) \<Rightarrow> u64 \<Rightarrow> u64 \<Rightarrow> elf_section option \<times> bool \<Rightarrow> symbol_s list" where
  "section_symbols str off base s =
     (case s of
        (Some sh, True) \<Rightarrow>
          if (sh_type sh = SHT_SYMTAB \<or> sh_type sh = SHT_DYNSYM) \<and> d_size sh \<noteq> 0
          then map (sym_entry str (sh_link sh) off base) (filter (Not \<circ> sym_skipped) (syms sh)) else []
      | _ \<Rightarrow> [])"

text \<open>The function symbols of a file, relocated to a mapping.\<close>

definition file_symbols :: "(string \<Rightarrow> elf_file option option) \<Rightarrow> string \<Rightarrow> u64 \<Rightarrow> symbol_s list" where
  "file_symbols open_file path start =
     (case open_file path of
        Some (Some elf) \<Rightarrow>
          (let (off, base) = (if e_type elf = ET_DYN then (start, symtab_elf_base (phdrs elf)) else (0, 0))
           in concat (map (section_symbols (elf_strptr elf) off base) (sections elf)))
      | _ \<Rightarrow> [])"

lemma symtab_build_section_appends:
  assumes "array_inv tab xs"
  shows "\<exists>tab'. symtab_build_section (\<lambda>_. True) str sh has_data off base tab =
      Return (int (length (section_symbols str off base (sh, has_data))), tab') \<and>
    array_inv tab' (xs @ section_symbols str off base (sh, has_data))"
  using symtab_section_loop_array [OF assms, of str "sh_link (the sh)" off base "syms (the sh)" 0] assms
  by (auto simp: symtab_build_section_def section_symbols_def split: option.split bool.split)

lemma symtab_sections_loop_appends:
  assumes "array_inv tab xs"
  shows "\<exists>tab'. symtab_sections_loop (\<lambda>_. True) str off base ss cnt tab =
      Return (cnt + int (length (concat (map (section_symbols str off base) ss))), tab') \<and>
    array_inv tab' (xs @ concat (map (section_symbols str off base) ss))"
  using assms
proof (induction ss arbitrary: cnt tab xs)
  case (Cons s ss)
  obtain sh has_data where s: "s = (sh, has_data)" by (cases s)
  obtain tab1 where 1: "symtab_build_section (\<lambda>_. True) str sh has_data off base tab =
      Return (int (length (section_symbols str off base s)), tab1)"
      "array_inv tab1 (xs @ section_symbols str off base s)"
    using symtab_build_section_appends [OF Cons.prems, of str sh has_data off base] by (auto simp: s)
  from Cons.IH [OF 1(2), of "cnt + int (length (section_symbols str off base s))"] 1(1)
  show ?case by (auto simp: s)
qed simp

interpretation sy: table_source "symtab_build_file (\<lambda>_. True) open_file" array_inv "file_symbols open_file"
  for open_file
proof unfold_locales
  fix tab :: "symbol_s array_s" and xs p start "end"
  assume inv: "array_inv tab xs"
  show "\<exists>n tab'. symtab_build_file (\<lambda>_. True) open_file p start end tab = Return (n, tab') \<and>
      array_inv tab' (xs @ file_symbols open_file p start) \<and> (0 < n \<longleftrightarrow> file_symbols open_file p start \<noteq> [])"
  proof (cases "open_file p")
    case None
    then show ?thesis using inv by (simp add: symtab_build_file_def file_symbols_def)
  next
    case (Some e)
    show ?thesis
    proof (cases e)
      case None
      then show ?thesis using inv Some by (simp add: symtab_build_file_def file_symbols_def)
    next
      case (Some elf)
      define ob where "ob = (if e_type elf = ET_DYN then (start, symtab_elf_base (phdrs elf)) else (0, 0))"
      show ?thesis
        using symtab_sections_loop_appends [OF inv, of "elf_strptr elf" "fst ob" "snd ob" "sections elf" 0] \<open>open_file p = Some e\<close> Some
        by (auto simp: symtab_build_file_def file_symbols_def case_prod_unfold Let_def simp flip: ob_def)
    qed
  qed
qed

section \<open>Lines\<close>

text \<open>The line tables of a file in the build with libdw, one for each unit that has rows.\<close>

definition unit_dies :: "u64 \<Rightarrow> dwarf_line list option list \<Rightarrow> dwarf_die_s list" where
  "unit_dies offset cus = map (\<lambda>l. new_die offset l 0) (filter (\<lambda>l. l \<noteq> []) (map the (filter (\<lambda>c. c \<noteq> None) cus)))"

definition file_dies :: "(string \<Rightarrow> nat option option) \<Rightarrow> (string \<Rightarrow> dwarf_line list option list option) \<Rightarrow>
     string \<Rightarrow> u64 \<Rightarrow> dwarf_die_s list" where
  "file_dies open_elf cus path start =
     (case open_elf path of
        Some (Some e) \<Rightarrow> (case cus path of None \<Rightarrow> [] | Some cs \<Rightarrow> unit_dies (if e = ET_EXEC then 0 else start) cs)
      | _ \<Rightarrow> [])"

lemma dw_units_loop_appends:
  assumes "array_inv tab xs"
  shows "\<exists>tab'. dw_units_loop (\<lambda>_. True) offset cus cnt tab = Return (cnt + int (length (unit_dies offset cus)), tab') \<and>
    array_inv tab' (xs @ unit_dies offset cus)"
  using assms
proof (induction cus arbitrary: tab xs cnt)
  case (Cons cu cus)
  show ?case
  proof (cases "cu = None \<or> cu = Some []")
    case True
    with Cons show ?thesis by (auto simp: unit_dies_def)
  next
    case False
    then obtain l where l: "cu = Some l" "l \<noteq> []" by (cases cu) auto
    obtain pos t where push: "array_push True tab = (pos, t)" by fastforce
    from array_push_store [OF Cons.prems push] obtain b where
      b: "array_store pos (new_die offset l 0) t = Return b" "array_inv b (xs @ [new_die offset l 0])" by blast
    from Cons.IH [OF b(2), of "cnt + 1"] push b(1) l show ?thesis by (auto simp: unit_dies_def algebra_simps)
  qed
qed (simp add: unit_dies_def)

interpretation li: table_source
  "\<lambda>path. debug_line_build_file (open_elf path) (debug_line_build_dwarf_dw (\<lambda>_. True) (cus path))" array_inv
  "file_dies open_elf cus"
  for open_elf cus
proof unfold_locales
  fix tab :: "dwarf_die_s array_s" and xs p start "end"
  assume inv: "array_inv tab xs"
  show "\<exists>n tab'. debug_line_build_file (open_elf p) (debug_line_build_dwarf_dw (\<lambda>_. True) (cus p)) start end tab = Return (n, tab') \<and>
      array_inv tab' (xs @ file_dies open_elf cus p start) \<and> (0 < n \<longleftrightarrow> file_dies open_elf cus p start \<noteq> [])"
    using dw_units_loop_appends [OF inv, of "if the (the (open_elf p)) = ET_EXEC then 0 else start" "the (cus p)" 0] inv
    by (auto simp: debug_line_build_file_def debug_line_build_dwarf_dw_def file_dies_def split: option.splits)
qed

section \<open>Properties\<close>

lemma wanted_paths:
  assumes "good_procfs pf ms exe"
  shows "\<forall>(path, start, end, exe_self) \<in> set (map (vm_mapping exe) (filter vm_wanted ms)). take 1 path = ''/'' \<and> length path < 1018"
  using assms by (auto simp: good_procfs_def vm_mapping_def vm_wanted_def)

text \<open>C11 (symtab_build_exact): with memory available and without the option \<open>-d\<close>, building the symbol table of a
  process returns, and the table holds for each executable mapping of a file the relocated function
  symbols of the first offered file that has any, sorted by address.\<close>

theorem symtab_build_exact:
  assumes "good_procfs pf ms exe" and "filp pst = None" and "good_files fs" and "length (g_build_id st) = 100"
    and "array_inv tab []"
  shows "\<exists>st' tab' xss table.
    symtab_build (\<lambda>_. True) open_file fs None pf pst st tab = Return (\<lparr>filp = None, exe_name = exe\<rparr>, st', tab') \<and>
    array_inv tab' table \<and> mset table = mset (concat xss) \<and> sorted (map sym_address table) \<and>
    list_all2 (mapping_items fs (file_symbols open_file)) (map (vm_mapping exe) (filter vm_wanted ms)) xss"
proof -
  obtain st' tab' xss where 1:
    "run_fold (build_mapping fs None (symtab_build_file (\<lambda>_. True) open_file))
       (map (vm_mapping exe) (filter vm_wanted ms)) (st, tab) = Return (st', tab')"
    "array_inv tab' (concat xss)"
    "list_all2 (mapping_items fs (file_symbols open_file)) (map (vm_mapping exe) (filter vm_wanted ms)) xss"
    using sy.build_mappings_append [OF assms(3) wanted_paths [OF assms(1)] assms(4,5), of open_file] by auto
  obtain table where "array_inv (symtab_finish tab') table" "mset table = mset (concat xss)" "sorted (map sym_address table)"
    using symtab_finish_sorted [OF 1(2)] by blast
  moreover have "symtab_build (\<lambda>_. True) open_file fs None pf pst st tab =
      Return (\<lparr>filp = None, exe_name = exe\<rparr>, st', symtab_finish tab')"
    using 1(1) by (simp add: symtab_build_def proc_maps_each_good [OF assms(1,2)])
  ultimately show ?thesis using 1(3) by blast
qed

theorem symtab_build_exact_witness:
  "\<exists>st' tab' xss table.
    symtab_build (\<lambda>_. True) (\<lambda>p. Some (Some \<lparr>e_type = 2, phdrs = [], sections = [(Some demo_section, True)], elf_strptr = (\<lambda>l n. ''malloc'')\<rparr>))
        demo_files None \<lparr>maps_file = Some (concat (map maps_line demo_maps)), exe_link = Some ''/bin/a'', task_dir = None\<rparr>
        no_maps init_dbg (ARRAY 1000) = Return (\<lparr>filp = None, exe_name = ''/bin/a''\<rparr>, st', tab') \<and>
    array_inv tab' table \<and> mset table = mset (concat xss) \<and> sorted (map sym_address table)"
proof -
  have "filp no_maps = None" by (simp add: no_maps_def)
  moreover have "length (g_build_id init_dbg) = 100" by (simp add: init_dbg_def)
  moreover have "array_inv (ARRAY 1000 :: symbol_s array_s) []" by (simp add: array_inv_ARRAY)
  ultimately show ?thesis
    using symtab_build_exact [OF demo_procfs _ demo_files_good,
        where open_file = "\<lambda>p. Some (Some \<lparr>e_type = 2, phdrs = [], sections = [(Some demo_section, True)], elf_strptr = (\<lambda>l n. ''malloc'')\<rparr>)"]
    by blast
qed

text \<open>The table of the lines likewise, in the build with libdw.\<close>

lemma debug_line_build_exact:
  assumes "good_procfs pf ms exe" and "filp pst = None" and "good_files fs" and "length (g_build_id st) = 100"
    and "array_inv tab []"
  shows "\<exists>st' tab' xss.
    debug_line_build open_elf (\<lambda>path. debug_line_build_dwarf_dw (\<lambda>_. True) (cus path)) fs None pf pst st tab =
      Return (\<lparr>filp = None, exe_name = exe\<rparr>, st', tab') \<and>
    array_inv tab' (qsort dwarf_die_cmp (concat xss)) \<and>
    list_all2 (mapping_items fs (file_dies open_elf cus)) (map (vm_mapping exe) (filter vm_wanted ms)) xss"
proof -
  obtain st' tab' xss where 1:
    "run_fold (build_mapping fs None (\<lambda>path. debug_line_build_file (open_elf path) (debug_line_build_dwarf_dw (\<lambda>_. True) (cus path))))
       (map (vm_mapping exe) (filter vm_wanted ms)) (st, tab) = Return (st', tab')"
    "array_inv tab' (concat xss)"
    "list_all2 (mapping_items fs (file_dies open_elf cus)) (map (vm_mapping exe) (filter vm_wanted ms)) xss"
    using li.build_mappings_append [OF assms(3) wanted_paths [OF assms(1)] assms(4,5), of open_elf cus] by auto
  moreover have "array_inv (debug_line_finish tab') (qsort dwarf_die_cmp (concat xss))"
    unfolding debug_line_finish_def by (rule array_inv_sort [OF 1(2)])
  moreover have "debug_line_build open_elf (\<lambda>path. debug_line_build_dwarf_dw (\<lambda>_. True) (cus path)) fs None pf pst st tab =
      Return (\<lparr>filp = None, exe_name = exe\<rparr>, st', debug_line_finish tab')"
    using 1(1) by (simp add: debug_line_build_def proc_maps_each_good [OF assms(1,2)])
  ultimately show ?thesis by blast
qed

text \<open>The table of the mappings is built from the same sequence.\<close>

lemma addr_maps_build_mappings:
  assumes "good_procfs pf ms exe" and "filp pst = None"
  shows "proc_maps_each pf (\<lambda>(path, start, end, exe_self) a. addr_maps_build_file (mem_ok (item_num a)) path start end a) pst a =
    run_bind (addr_maps_build mem_ok (map (\<lambda>m. (vm_name m, vm_start m, vm_end m)) (filter vm_wanted ms)) a)
      (\<lambda>a. Return (a, \<lparr>filp = None, exe_name = exe\<rparr>))"
proof -
  have "run_fold (\<lambda>(path, start, end, exe_self) a. addr_maps_build_file (mem_ok (item_num a)) path start end a)
      (map (vm_mapping exe) ws) a = addr_maps_build mem_ok (map (\<lambda>m. (vm_name m, vm_start m, vm_end m)) ws) a" for ws a
  proof (induction ws arbitrary: a)
    case (Cons w ws)
    then have "run_fold (\<lambda>(path, start, end, exe_self) a. addr_maps_build_file (mem_ok (item_num a)) path start end a)
      (map (vm_mapping exe) ws) = addr_maps_build mem_ok (map (\<lambda>m. (vm_name m, vm_start m, vm_end m)) ws)" by blast
    moreover have "vm_mapping exe w = (vm_name w, vm_start w, vm_end w, vm_name w = exe)" by (simp add: vm_mapping_def)
    ultimately show ?case by simp
  qed simp
  then show ?thesis by (simp add: proc_maps_each_good [OF assms])
qed

end
