(* ===== verification/Ptr_Backtrace.thy ===== *)
theory Ptr_Backtrace
  imports Linked_List Hash_Table Target_Memory Proc_Info Call_Stack
begin

text \<open>
  \<open>src/ptr_backtrace.c\<close>: the copies of the mapped files from which the unwinder reads, the
  cache of its procedure information, the ten most recently used address spaces, and the
  unwinding loop. The calls of libunwind (\<open>_UPT_find_proc_info\<close>, the results of
  \<open>unw_get_reg\<close> and \<open>unw_step\<close>) are arguments of the definitions.
\<close>

section \<open>Copies of the mapped files\<close>

record map_section_s =
  ms_start :: u64
  ms_end :: u64
  ms_data :: "u8 list"

record map_state =
  g_map_sections :: "unit lheap"
  ms_mem :: "nat \<Rightarrow> map_section_s"
  ms_next :: nat





definition UNW_EUNSPEC :: int where "UNW_EUNSPEC = 1"

definition UNW_EBADREG :: int where "UNW_EBADREG = 3"

text \<open>A word of a copy; the index counts words.\<close>

definition section_word :: "map_section_s \<Rightarrow> u64 \<Rightarrow> u64 run" where
  "section_word ms addr =
     (let i = 8 * (unat (addr - ms_start ms) div 8)
      in if i + 8 \<le> length (ms_data ms) then Return (le_word (take 8 (drop i (ms_data ms)))) else Crash BufferOverflow)"

fun access_sections :: "map_section_s list \<Rightarrow> u64 \<Rightarrow> u64 option run" where
  "access_sections [] addr = Return None"
| "access_sections (ms # mss) addr =
     (if addr \<ge> ms_start ms \<and> addr \<le> ms_end ms then run_bind (section_word ms addr) (\<lambda>v. Return (Some v))
      else access_sections mss addr)"

text \<open>The result code and the value.\<close>

definition ptr_access_mem :: "map_state \<Rightarrow> pid \<Rightarrow> (u64, 'r) target \<Rightarrow> u64 \<Rightarrow> (int \<times> u64) run" where
  "ptr_access_mem st g_current_thread t addr =
     run_bind (run_of_option (list_for_each (LHead ()) (g_map_sections st))) (\<lambda>ps.
     run_bind (access_sections (map (\<lambda>p. ms_mem st (list_entry p)) ps) addr) (\<lambda>r.
       case r of
         Some v \<Rightarrow> Return (0, v)
       | None \<Rightarrow>
           let v = ptrace_get_data g_current_thread addr t
           in if v = -1 then Return (- UNW_EUNSPEC, v) else Return (0, v)))"

text \<open>AArch64 registers; \<open>buf\<close> is what the local variable held before.\<close>

record aarch64_file =
  xregs :: "nat \<Rightarrow> u64"
  xsp :: u64
  xpc :: u64

definition ptr_access_reg :: "pid \<Rightarrow> aarch64_file \<Rightarrow> ('a, aarch64_file) target \<Rightarrow> nat \<Rightarrow> u64 \<Rightarrow> int \<times> u64" where
  "ptr_access_reg g_current_thread buf t reg val =
     (let regs = ptrace_get_regs g_current_thread buf t
      in if reg < 31 then (0, xregs regs reg)
         else if reg = 31 then (0, xsp regs)
         else if reg = 32 then (0, xpc regs)
         else (- UNW_EBADREG, val))"

section \<open>The cache of procedure information\<close>

text \<open>
  Unwind information is reached through a pointer, to memory of the library (\<open>LibInfo\<close>), of an entry of the
  cache (\<open>CacheInfo\<close>) or to the one static buffer \<open>unw_info_buf\<close> that all hits share. \<open>info_mem\<close> are the bytes there.
\<close>

datatype info_ptr = NullInfo | LibInfo nat | CacheInfo nat | UnwInfoBuf

type_synonym info_heap = "info_ptr \<Rightarrow> u8 list"

record unw_proc_info =
  start_ip :: u64
  end_ip :: u64
  handler_ip :: u64
  unwind_info :: info_ptr
  unwind_info_size :: nat

definition UNW_INFO_BUF :: nat where "UNW_INFO_BUF = 100"

text \<open>\<open>new_buf\<close>: into new memory (\<open>new\<close>; \<open>None\<close> if there is none), else into the static buffer.\<close>

definition unw_proc_info_copy ::
  "info_ptr option \<Rightarrow> unw_proc_info \<Rightarrow> bool \<Rightarrow> info_heap \<Rightarrow> (unw_proc_info \<times> info_heap) run" where
  "unw_proc_info_copy new s new_buf mem =
     (let bytes = take (unwind_info_size s) (mem (unwind_info s))
      in if new_buf then
           (case new of
              Some p \<Rightarrow> Return (s\<lparr>unwind_info := p\<rparr>, mem(p := bytes))
            | None \<Rightarrow> if unwind_info_size s = 0 then Return (s\<lparr>unwind_info := NullInfo\<rparr>, mem) else Crash NullDeref)
         else if unwind_info_size s \<le> UNW_INFO_BUF
           then Return (s\<lparr>unwind_info := UnwInfoBuf\<rparr>,
             mem(UnwInfoBuf := bytes @ drop (unwind_info_size s) (mem UnwInfoBuf)))
         else Crash BufferOverflow)"

record ip_info_s =
  ii_ip :: u64
  ii_pi :: unw_proc_info
  ii_ret :: int

text \<open>A call of \<open>_UPT_find_proc_info\<close>: the address space, the instruction pointer, \<open>need_unwind_info\<close> and \<open>arg\<close>;
  and its outcome: the code, the information and the bytes it points to.\<close>

record upt_query =
  q_as :: u64
  q_ip :: u64
  q_need :: int
  q_arg :: u64

record upt_answer =
  a_ret :: int
  a_pi :: unw_proc_info
  a_bytes :: "u8 list"

record ip_cache =
  ip_info_hash :: hheap
  ii_mem :: "nat \<Rightarrow> ip_info_s"
  ii_next :: nat
  ii_queries :: "upt_query list"
  info_mem :: info_heap

definition no_info :: unw_proc_info where
  "no_info = \<lparr>start_ip = 0, end_ip = 0, handler_ip = 0, unwind_info = NullInfo, unwind_info_size = 0\<rparr>"

definition init_ip_cache :: ip_cache where
  "init_ip_cache = \<lparr>ip_info_hash = empty_hash, ii_mem = (\<lambda>_. \<lparr>ii_ip = 0, ii_pi = no_info, ii_ret = 0\<rparr>),
     ii_next = 0, ii_queries = [], info_mem = (\<lambda>p. if p = UnwInfoBuf then replicate UNW_INFO_BUF 0 else [])\<rparr>"

definition ii_key :: "ip_cache \<Rightarrow> nat \<Rightarrow> u64" where
  "ii_key c n = ii_ip (ii_mem c n)"

text \<open>The outcome of the library's \<open>k\<close>-th call: \<open>*pi\<close> and the memory it points to.\<close>

definition upt_pi :: "nat \<Rightarrow> upt_answer \<Rightarrow> unw_proc_info" where
  "upt_pi k a = (a_pi a)\<lparr>unwind_info := LibInfo k, unwind_info_size := length (a_bytes a)\<rparr>"

text \<open>
  \<open>upt_find k q\<close> is the outcome of \<open>_UPT_find_proc_info\<close> when its \<open>k\<close>-th call is \<open>q\<close>. The function gives the
  result code, what \<open>*pi\<close> holds, and the cache; the calls are logged. \<open>ok\<close> and \<open>ok_buf\<close> tell whether the two
  calls of \<open>malloc\<close> succeed.
\<close>

definition ptr_find_proc_info ::
  "bool \<Rightarrow> bool \<Rightarrow> (nat \<Rightarrow> upt_query \<Rightarrow> upt_answer) \<Rightarrow> upt_query \<Rightarrow> unw_proc_info \<Rightarrow> ip_cache \<Rightarrow>
     (int \<times> unw_proc_info \<times> ip_cache) run" where
  "ptr_find_proc_info ok ok_buf upt_find q pi c =
     run_bind (run_of_option (hash_search (\<lambda>m. word_key (ii_key c m)) (ip_info_hash c) (word_key (q_ip q)) 8)) (\<lambda>p.
       case p of
         Some n \<Rightarrow>
           (let ii = ii_mem c n
            in if ii_ret ii < 0 then Return (ii_ret ii, pi, c)
               else run_bind (unw_proc_info_copy None (ii_pi ii) False (info_mem c)) (\<lambda>(pi, mem).
                      Return (ii_ret ii, pi, c\<lparr>info_mem := mem\<rparr>)))
       | None \<Rightarrow>
           if \<not> ok then Crash NullDeref
           else
             (let k = length (ii_queries c); a = upt_find k q; pi = upt_pi k a; n = ii_next c;
                  mem = (info_mem c)(LibInfo k := a_bytes a)
              in run_bind (if a_ret a \<ge> 0 then unw_proc_info_copy (if ok_buf then Some (CacheInfo n) else None) pi True mem
                           else Return (no_info, mem)) (\<lambda>(copy, mem).
                   let c = c\<lparr>ii_mem := (ii_mem c)(n := \<lparr>ii_ip = q_ip q, ii_pi = copy, ii_ret = a_ret a\<rparr>), ii_next := Suc n,
                             ii_queries := ii_queries c @ [q], info_mem := mem\<rparr>;
                       c = c\<lparr>ip_info_hash := hash_add (\<lambda>m. word_key (ii_key c m)) n 8 (ip_info_hash c)\<rparr>
                   in Return (a_ret a, pi, c))))"

section \<open>Address spaces and unwinding\<close>

definition SPACE_MAX :: nat where "SPACE_MAX = 10"

text \<open>
  \<open>upt_info\<close> is the thread that the unwinder's data was created for; \<open>None\<close> before the first
  use. The log counts the creations and destructions.
\<close>

record thread_space_s =
  upt_info :: "pid option"
  thread_id :: pid

record space_state =
  space_head :: "unit lheap"
  spaces :: "nat \<Rightarrow> thread_space_s"
  created :: nat
  destroyed :: nat

definition init_space_state :: space_state where
  "init_space_state = \<lparr>space_head = empty_heap, spaces = (\<lambda>_. \<lparr>upt_info = None, thread_id = 0\<rparr>), created = 0, destroyed = 0\<rparr>"

fun space_search :: "(nat \<Rightarrow> thread_space_s) \<Rightarrow> pid \<Rightarrow> nat list \<Rightarrow> nat option \<Rightarrow> nat option" where
  "space_search mem cur [] sp = sp"
| "space_search mem cur (n # ns) sp =
     (if thread_id (mem n) = 0 then Some n
      else if thread_id (mem n) = cur then Some n
      else space_search mem cur ns (Some n))"

definition space_init :: "space_state \<Rightarrow> space_state" where
  "space_init st =
     (if list_empty (LHead ()) (space_head st)
      then st\<lparr>space_head := fold (\<lambda>i. list_add (LNode i) (LHead ())) [0..<SPACE_MAX] (space_head st)\<rparr> else st)"

definition space_select :: "pid \<Rightarrow> space_state \<Rightarrow> (nat \<times> space_state) run" where
  "space_select cur st =
     (let st = space_init st
      in run_bind (run_of_option (list_for_each (LHead ()) (space_head st))) (\<lambda>ps.
           case space_search (spaces st) cur (map list_entry ps) None of
             None \<Rightarrow> Crash NullDeref
           | Some sp \<Rightarrow>
               let st = (if thread_id (spaces st sp) \<noteq> cur then
                     st\<lparr>destroyed := (if thread_id (spaces st sp) \<noteq> 0 then destroyed st + 1 else destroyed st),
                        created := created st + 1,
                        spaces := (spaces st)(sp := \<lparr>upt_info = Some cur, thread_id = cur\<rparr>)\<rparr> else st)
               in Return (sp, st\<lparr>space_head := list_add (LNode sp) (LHead ()) (list_del (LNode sp) (space_head st))\<rparr>)))"

text \<open>
  The loop that stores the frames: \<open>frame k\<close> is the instruction pointer at depth \<open>k\<close> and \<open>step k\<close> the
  result of the step from there. \<open>buf\<close> is the caller's array.
\<close>

function unwind_loop :: "(nat \<Rightarrow> u64) \<Rightarrow> (nat \<Rightarrow> int) \<Rightarrow> int \<Rightarrow> nat \<Rightarrow> u64 list \<Rightarrow> (nat \<times> u64 list) run" where
  "unwind_loop frame step sz i buf =
     (if i < length buf then
        let buf = buf[i := frame i]
        in if int (i + 1) < sz \<and> step i > 0 then unwind_loop frame step sz (i + 1) buf
           else Return (i + 1, buf)
      else Crash BufferOverflow)"
  by pat_completeness auto
termination
  by (relation "measure (\<lambda>(frame, step, sz, i, buf). length buf - i)") auto

declare unwind_loop.simps [simp del]

text \<open>\<open>unw\<close> gives the frames and steps for the unwinder's data of a thread.\<close>

definition ptr_backtrace ::
  "(pid \<Rightarrow> (nat \<Rightarrow> u64) \<times> (nat \<Rightarrow> int)) \<Rightarrow> pid \<Rightarrow> int \<Rightarrow> u64 list \<Rightarrow> space_state \<Rightarrow>
     (nat \<times> u64 list \<times> space_state) run" where
  "ptr_backtrace unw cur sz buf st =
     run_bind (space_select cur st) (\<lambda>(sp, st).
       case upt_info (spaces st sp) of
         None \<Rightarrow> Crash NullDeref
       | Some thread \<Rightarrow>
           (case unw thread of (frame, step) \<Rightarrow>
              run_bind (unwind_loop frame step sz 0 buf) (\<lambda>(n, buf). Return (n, buf, st))))"

text \<open>The beginning of \<open>callstack_current\<close>: the entry address and the frames in \<open>ips[BACKTRACE_MAX]\<close>.\<close>

definition current_ips ::
  "(pid \<Rightarrow> (nat \<Rightarrow> u64) \<times> (nat \<Rightarrow> int)) \<Rightarrow> pid \<Rightarrow> u64 \<Rightarrow> int \<Rightarrow> u64 list \<Rightarrow> space_state \<Rightarrow> (u64 list \<times> space_state) run" where
  "current_ips unw cur g_current_entry limit buf st =
     run_bind (ptr_backtrace unw cur (sint (int_of_long (limit - 1))) (tl buf) st) (\<lambda>(n, buf, st).
       Return (take (n + 1) (g_current_entry # buf), st))"

section \<open>Bounds of a backtrace\<close>

lemma unwind_loop_frames:
  assumes "i < length buf" and "sz \<le> int (length buf)"
  shows "\<exists>n buf'. unwind_loop frame step sz i buf = Return (n, buf') \<and> i < n \<and> n \<le> length buf \<and>
     int n \<le> max (int i + 1) sz \<and> length buf' = length buf \<and>
     take n buf' = take i buf @ map frame [i..<n] \<and> (\<forall>k. i \<le> k \<and> k + 1 < n \<longrightarrow> step k > 0) \<and>
     (sz \<le> int n \<or> step (n - 1) \<le> 0)"
  using assms
proof (induction frame step sz i buf rule: unwind_loop.induct)
  case (1 frame step sz i buf)
  let ?buf = "buf[i := frame i]"
  show ?case
  proof (cases "int (i + 1) < sz \<and> step i > 0")
    case True
    then have "i + 1 < length ?buf" using 1(3) by simp
    then obtain n buf' where n: "unwind_loop frame step sz (i + 1) ?buf = Return (n, buf')" "i + 1 < n" "n \<le> length ?buf"
        "int n \<le> max (int (i + 1) + 1) sz" "length buf' = length ?buf" "take n buf' = take (i + 1) ?buf @ map frame [i + 1..<n]"
        "\<forall>k. i + 1 \<le> k \<and> k + 1 < n \<longrightarrow> step k > 0" "sz \<le> int n \<or> step (n - 1) \<le> 0"
      using 1(1) [OF 1(2) refl True] 1(3) by auto
    have "take (i + 1) ?buf = take i buf @ [frame i]" using 1(2) by (simp add: take_Suc_conv_app_nth)
    moreover have "map frame [i..<n] = frame i # map frame [i + 1..<n]" using n(2) by (simp add: upt_conv_Cons)
    ultimately have "take n buf' = take i buf @ map frame [i..<n]" using n(6) by simp
    moreover have "step k > 0" if "i \<le> k" "k + 1 < n" for k using that True n(7) by (cases "k = i") auto
    moreover have "int n \<le> max (int i + 1) sz" using n(4) True by auto
    ultimately show ?thesis using n True 1(2) by (subst unwind_loop.simps) (auto simp: Let_def)
  next
    case False
    then show ?thesis using 1(2)
      by (subst unwind_loop.simps) (auto simp: Let_def take_Suc_conv_app_nth not_less)
  qed
qed

section \<open>The address spaces are kept by most recent use\<close>

lemma space_search_find:
  "space_search mem cur ns sp =
     (case find (\<lambda>n. thread_id (mem n) = 0 \<or> thread_id (mem n) = cur) ns of
        Some n \<Rightarrow> Some n | None \<Rightarrow> if ns = [] then sp else Some (last ns))"
  by (induction ns arbitrary: sp) (auto split: option.split)

text \<open>The threads that have an address space, the most recently used first.\<close>

definition spaces_hold :: "space_state \<Rightarrow> nat list \<Rightarrow> pid list \<Rightarrow> bool" where
  "spaces_hold st ns ids \<longleftrightarrow> is_list (space_head st) () ns \<and> 0 \<notin> set ids \<and> distinct ids \<and> length ids \<le> length ns \<and>
     map (\<lambda>n. thread_id (spaces st n)) ns = ids @ replicate (length ns - length ids) 0 \<and>
     (\<forall>n \<in> set ns. thread_id (spaces st n) \<noteq> 0 \<longrightarrow> upt_info (spaces st n) = Some (thread_id (spaces st n)))"

definition space_inv :: "space_state \<Rightarrow> pid list \<Rightarrow> bool" where
  "space_inv st ids \<longleftrightarrow>
     is_list (space_head st) () [] \<and> ids = [] \<and> (\<forall>n. thread_id (spaces st n) = 0) \<or>
     (\<exists>ns. length ns = SPACE_MAX \<and> spaces_hold st ns ids)"

lemma fold_list_add:
  "is_list h () xs \<Longrightarrow> distinct ks \<Longrightarrow> set ks \<inter> set xs = {} \<Longrightarrow>
     is_list (fold (\<lambda>i. list_add (LNode i) (LHead ())) ks h) () (rev ks @ xs)"
proof (induction ks arbitrary: h xs)
  case (Cons k ks)
  then have "is_list (list_add (LNode k) (LHead ()) h) () (k # xs)" by (intro dll.holds_push) auto
  from Cons.IH [OF this] Cons.prems show ?case by simp
qed simp

lemma space_init_holds:
  assumes "space_inv st ids"
  shows "\<exists>ns. length ns = SPACE_MAX \<and> spaces_hold (space_init st) ns ids \<and>
    created (space_init st) = created st \<and> destroyed (space_init st) = destroyed st"
  using assms unfolding space_inv_def
proof
  assume a: "is_list (space_head st) () [] \<and> ids = [] \<and> (\<forall>n. thread_id (spaces st n) = 0)"
  then have "list_empty (LHead ()) (space_head st)" using is_list_list_empty [of "space_head st" "()" "[]"] by simp
  moreover have "is_list (fold (\<lambda>i. list_add (LNode i) (LHead ())) [0..<SPACE_MAX] (space_head st)) () (rev [0..<SPACE_MAX] @ [])"
    using a by (intro fold_list_add) auto
  moreover have "map (\<lambda>n. thread_id (spaces st n)) ns = replicate (length ns) 0" for ns
    using a by (simp add: map_replicate_const)
  ultimately have "spaces_hold (space_init st) (rev [0..<SPACE_MAX]) ids"
    using a by (simp only: space_init_def spaces_hold_def) simp
  then show ?thesis by (intro exI [of _ "rev [0..<SPACE_MAX]"]) (simp add: space_init_def)
next
  assume "\<exists>ns. length ns = SPACE_MAX \<and> spaces_hold st ns ids"
  then obtain ns where ns: "length ns = SPACE_MAX" "spaces_hold st ns ids" by blast
  then have "\<not> list_empty (LHead ()) (space_head st)"
    using is_list_list_empty [of "space_head st" "()" ns] by (auto simp: spaces_hold_def SPACE_MAX_def)
  then show ?thesis using ns by (auto simp: space_init_def)
qed

text \<open>The space that the search ends at, and the threads of the other spaces.\<close>

lemma space_search_split:
  assumes "map tid ns = ids @ replicate (length ns - length ids) (0 :: pid)" and "0 \<notin> set ids" and "distinct ids"
    and "length ids \<le> length ns" and "length ns = Suc k" and "cur \<noteq> 0" and "tid = (\<lambda>n. thread_id (mem n))"
  shows "\<exists>xs sp ys. ns = xs @ sp # ys \<and> space_search mem cur ns None = Some sp \<and>
    map tid (xs @ ys) = take k (removeAll cur ids) @ replicate (k - length (take k (removeAll cur ids))) 0 \<and>
    tid sp = (if cur \<in> set ids then cur else if length ids = Suc k then last ids else 0)"
proof -
  let ?P = "\<lambda>n. tid n = 0 \<or> tid n = cur"
  have search: "space_search mem cur ns None = Some sp" if "ns = xs @ sp # ys" "\<forall>n \<in> set xs. \<not> ?P n" "?P sp \<or> ys = []" for xs sp ys
  proof -
    have "find ?P (xs @ sp # ys) = (if ?P sp then Some sp else find ?P ys)" using that(2) by (induction xs) auto
    then show ?thesis using that by (auto simp: space_search_find assms(7))
  qed
  consider (hit) "cur \<in> set ids" | (free) "cur \<notin> set ids" "length ids \<le> k" | (full) "cur \<notin> set ids" "length ids = Suc k"
    using assms(4,5) by linarith
  then show ?thesis
  proof cases
    case hit
    then obtain as bs where ids: "ids = as @ cur # bs" by (meson split_list)
    let ?z = "replicate (length ns - length ids) (0 :: pid)"
    have m: "map tid ns = as @ cur # (bs @ ?z)" using assms(1) ids by simp
    obtain xs sp ys where ns: "ns = xs @ sp # ys" "map tid xs = as" "tid sp = cur" "map tid ys = bs @ ?z"
      using map_split_at [OF m] by blast
    have "removeAll cur ids = as @ bs" using assms(3) ids by (simp add: removeAll_id)
    moreover have "length (as @ bs) \<le> k" "length ns - length ids = k - length (as @ bs)" using assms(4,5) ids by auto
    moreover have "\<forall>n \<in> set xs. \<not> ?P n" using ns(2) assms(2,3) ids by (auto simp: image_iff)
    ultimately show ?thesis using search [OF ns(1)] ns hit by (intro exI [of _ xs] exI [of _ sp] exI [of _ ys]) auto
  next
    case free
    then have z: "replicate (length ns - length ids) (0 :: pid) = 0 # replicate (k - length ids) 0"
      using assms(5) by (simp add: Suc_diff_le)
    obtain xs sp ys where ns: "ns = xs @ sp # ys" "map tid xs = ids" "tid sp = 0" "map tid ys = replicate (k - length ids) 0"
      using map_split_at [OF assms(1) [unfolded z]] by blast
    moreover have "\<forall>n \<in> set xs. \<not> ?P n" using ns(2) assms(2) free by (auto simp: image_iff)
    ultimately show ?thesis using search [OF ns(1)] free by (intro exI [of _ xs] exI [of _ sp] exI [of _ ys]) (auto simp: removeAll_id)
  next
    case full
    obtain xs sp where ns: "ns = xs @ [sp]" using assms(5) by (cases ns rule: rev_cases) auto
    have m: "map tid ns = ids" using assms(1,5) full by simp
    then have "tid sp = last ids" "map tid xs = take k ids" using ns assms(5) by (auto simp: take_map)
    moreover have "\<forall>n \<in> set xs. \<not> ?P n" using m ns assms(2) full by (auto simp: image_iff)
    ultimately show ?thesis using search [OF ns] full ns by (intro exI [of _ xs] exI [of _ sp] exI [of _ "[]"]) (auto simp: removeAll_id)
  qed
qed

text \<open>Moving the selected space to the front, with the current thread in it.\<close>

definition use_space :: "pid \<Rightarrow> nat \<Rightarrow> space_state \<Rightarrow> space_state" where
  "use_space cur sp s = s\<lparr>spaces := (spaces s)(sp := \<lparr>upt_info = Some cur, thread_id = cur\<rparr>),
     space_head := list_add (LNode sp) (LHead ()) (list_del (LNode sp) (space_head s))\<rparr>"

lemma use_space_holds:
  assumes hold: "spaces_hold s ns ids" and ns: "ns = xs @ sp # ys" "length ns = Suc k" and cur: "cur \<noteq> 0"
    and rest: "map (\<lambda>n. thread_id (spaces s n)) (xs @ ys) =
      take k (removeAll cur ids) @ replicate (k - length (take k (removeAll cur ids))) 0"
  shows "spaces_hold (use_space cur sp s) (sp # xs @ ys) (cur # take k (removeAll cur ids))"
proof -
  note h = hold [unfolded spaces_hold_def]
  let ?ids = "take k (removeAll cur ids)"
  define m where "m = (spaces s)(sp := \<lparr>upt_info = Some cur, thread_id = cur\<rparr>)"
  have d: "distinct ns" using h by (simp add: is_list_def)
  have "is_list (list_add (LNode sp) (LHead ()) (list_del (LNode sp) (space_head s))) () (sp # xs @ ys)"
    using dll.refresh_node [of "space_head s" "()" ns sp] h ns(1) d by (auto simp: remove1_append)
  moreover have other: "map (\<lambda>n. thread_id (m n)) (xs @ ys) = map (\<lambda>n. thread_id (spaces s n)) (xs @ ys)"
    using d ns(1) by (intro map_cong) (auto simp: m_def)
  have "thread_id (m sp) = cur" "length (xs @ ys) = k" using ns by (simp_all add: m_def)
  then have "map (\<lambda>n. thread_id (m n)) (sp # xs @ ys) = (cur # ?ids) @ replicate (length (sp # xs @ ys) - length (cur # ?ids)) 0"
    by (simp only: list.map other rest length_Cons append_Cons diff_Suc_Suc)
  moreover have "distinct (cur # ?ids)" "0 \<notin> set (cur # ?ids)"
    using h cur by (auto simp: distinct_removeAll dest: in_set_takeD)
  moreover have "length (cur # ?ids) \<le> length (sp # xs @ ys)" using ns by simp
  moreover have "\<forall>n \<in> set (sp # xs @ ys). thread_id (m n) \<noteq> 0 \<longrightarrow> upt_info (m n) = Some (thread_id (m n))"
    using h ns(1) by (simp add: m_def)
  moreover have "space_head (use_space cur sp s) = list_add (LNode sp) (LHead ()) (list_del (LNode sp) (space_head s))"
    "spaces (use_space cur sp s) = m" by (simp_all add: use_space_def m_def)
  ultimately show ?thesis unfolding spaces_hold_def by metis
qed

lemma space_select_lru:
  assumes "space_inv st ids" and cur: "cur \<noteq> 0"
  shows "\<exists>sp st'. space_select cur st = Return (sp, st') \<and> space_inv st' (cur # take 9 (removeAll cur ids)) \<and>
    spaces st' sp = \<lparr>upt_info = Some cur, thread_id = cur\<rparr> \<and>
    created st' = (if cur \<in> set ids then created st else created st + 1) \<and>
    destroyed st' = (if cur \<in> set ids \<or> length ids < SPACE_MAX then destroyed st else destroyed st + 1)"
proof -
  define s where "s = space_init st"
  obtain ns where ns: "length ns = SPACE_MAX" "spaces_hold s ns ids" "created s = created st" "destroyed s = destroyed st"
    using space_init_holds [OF assms(1)] unfolding s_def by blast
  note h = ns(2) [unfolded spaces_hold_def]
  from space_search_split [of "\<lambda>n. thread_id (spaces s n)" ns ids 9 cur "spaces s"] h cur ns(1)
  obtain xs sp ys where split: "ns = xs @ sp # ys" "space_search (spaces s) cur ns None = Some sp"
      "map (\<lambda>n. thread_id (spaces s n)) (xs @ ys) = take 9 (removeAll cur ids) @ replicate (9 - length (take 9 (removeAll cur ids))) 0"
      "thread_id (spaces s sp) = (if cur \<in> set ids then cur else if length ids = SPACE_MAX then last ids else 0)"
    by (auto simp: SPACE_MAX_def)
  have last: "last ids \<in> set ids" if "length ids = SPACE_MAX" using that by (cases ids) (auto simp: SPACE_MAX_def)
  have tid: "thread_id (spaces s sp) = cur \<longleftrightarrow> cur \<in> set ids" "cur \<notin> set ids \<Longrightarrow> thread_id (spaces s sp) \<noteq> 0 \<longleftrightarrow> length ids = SPACE_MAX"
    using split(4) cur h last by (auto split: if_splits)
  have old: "spaces s sp = \<lparr>upt_info = Some cur, thread_id = cur\<rparr>" if "cur \<in> set ids"
    using h that cur split(1) tid(1) by (cases "spaces s sp") auto
  define st' where "st' = (use_space cur sp s)\<lparr>created := (if cur \<in> set ids then created st else created st + 1),
      destroyed := (if cur \<in> set ids \<or> length ids < SPACE_MAX then destroyed st else destroyed st + 1)\<rparr>"
  have "list_for_each (LHead ()) (space_head s) = Some (map LNode ns)"
    by (rule is_list_list_for_each [OF conjunct1 [OF h]])
  moreover have "(spaces s)(sp := spaces s sp) = spaces s" by simp
  ultimately have run: "space_select cur st = Return (sp, st')"
    using split(2) tid old h ns(1,3,4)
    by (cases "cur \<in> set ids") (auto simp: space_select_def s_def [symmetric] Let_def st'_def use_space_def comp_def)
  have "spaces_hold st' (sp # xs @ ys) (cur # take 9 (removeAll cur ids))"
    using use_space_holds [OF ns(2) split(1) _ cur split(3)] ns(1) by (simp add: SPACE_MAX_def spaces_hold_def st'_def)
  then have "space_inv st' (cur # take 9 (removeAll cur ids))"
    using ns(1) split(1) unfolding space_inv_def by (intro disjI2 exI [of _ "sp # xs @ ys"]) simp
  then show ?thesis using run by (auto simp: st'_def use_space_def)
qed

text \<open>C14 (spaces_by_recent_use): the ten address spaces behave as a cache by most recent use: after a backtrace of a
  thread its space comes first, the others keep their order and the eleventh is dropped; the space selected
  is one created for this thread; a space is created only for a thread that has none, and one is
  destroyed only when all ten are in use.\<close>

theorem spaces_by_recent_use:
  assumes "space_inv st ids" and "cur \<noteq> 0"
  shows "\<exists>sp st'. space_select cur st = Return (sp, st') \<and> space_inv st' (cur # take 9 (removeAll cur ids)) \<and>
    spaces st' sp = \<lparr>upt_info = Some cur, thread_id = cur\<rparr> \<and>
    created st' = (if cur \<in> set ids then created st else created st + 1) \<and>
    destroyed st' = (if cur \<in> set ids \<or> length ids < SPACE_MAX then destroyed st else destroyed st + 1)"
  by (rule space_select_lru [OF assms])

lemma space_inv_init: "space_inv init_space_state []"
  using is_list_empty_heap [of "()"] by (simp add: space_inv_def init_space_state_def)

theorem spaces_by_recent_use_witness:
  "\<exists>sp st'. space_select 71 init_space_state = Return (sp, st') \<and> space_inv st' [71] \<and> created st' = 1"
  using spaces_by_recent_use [OF space_inv_init, of 71] by (auto simp: init_space_state_def)

lemma current_ips_frames:
  assumes "space_inv st ids" and "cur \<noteq> 0" and "- (2 ^ 31) < limit" and "limit \<le> int BACKTRACE_MAX" and "length buf = BACKTRACE_MAX"
  shows "\<exists>n st'. current_ips unw cur entry limit buf st = Return (entry # map (fst (unw cur)) [0..<n], st') \<and>
    1 \<le> n \<and> n + 1 \<le> BACKTRACE_MAX \<and> (2 \<le> limit \<longrightarrow> int n + 1 \<le> limit) \<and> (limit < 2 \<longrightarrow> n = 1) \<and>
    (\<forall>k. k + 1 < n \<longrightarrow> snd (unw cur) k > 0) \<and> (limit \<le> int n + 1 \<or> snd (unw cur) (n - 1) \<le> 0) \<and>
    space_inv st' (cur # take 9 (removeAll cur ids))"
proof -
  obtain sp st' where sel: "space_select cur st = Return (sp, st')" "space_inv st' (cur # take 9 (removeAll cur ids))"
      "spaces st' sp = \<lparr>upt_info = Some cur, thread_id = cur\<rparr>"
    using space_select_lru [OF assms(1,2)] by blast
  have len: "length (tl buf) = BACKTRACE_MAX - 1" "0 < length (tl buf)" "limit - 1 \<le> int (length (tl buf))"
    using assms(4,5) by (auto simp: BACKTRACE_MAX_def)
  have sz: "sint (int_of_long (limit - 1)) = limit - 1"
    using assms(3,4) by (intro sint_int_of_long) (auto simp: BACKTRACE_MAX_def)
  from unwind_loop_frames [OF len(2,3), of "fst (unw cur)" "snd (unw cur)"]
  obtain n buf' where n: "unwind_loop (fst (unw cur)) (snd (unw cur)) (limit - 1) 0 (tl buf) = Return (n, buf')"
      "0 < n" "n \<le> length (tl buf)" "int n \<le> max (int 0 + 1) (limit - 1)" "take n buf' = map (fst (unw cur)) [0..<n]"
      "\<forall>k. 0 \<le> k \<and> k + 1 < n \<longrightarrow> snd (unw cur) k > 0" "limit - 1 \<le> int n \<or> snd (unw cur) (n - 1) \<le> 0"
    by auto
  have "current_ips unw cur entry limit buf st = Return (entry # map (fst (unw cur)) [0..<n], st')"
    using sel n(1,5) by (simp add: sz current_ips_def ptr_backtrace_def case_prod_unfold)
  moreover have "n + 1 \<le> BACKTRACE_MAX" using n(3) len(1) by (simp add: BACKTRACE_MAX_def)
  moreover have "2 \<le> limit \<longrightarrow> int n + 1 \<le> limit" "limit < 2 \<longrightarrow> n = 1" using n(2,4) by auto
  ultimately show ?thesis using n(2,6,7) sel(2) by (intro exI [of _ n] exI [of _ st']) auto
qed

text \<open>C13 (backtrace_fits): with any limit that the options admit (at most \<open>BACKTRACE_MAX\<close>; negative ones are admitted),
  other than the smallest \<open>int\<close>, recording the current call stack never leaves the array \<open>ips[BACKTRACE_MAX]\<close>. It gives
  the API entry and then the frames of the current thread from the innermost on, at least one. With a limit of
  2 or more these are at most as many addresses as the limit says, and fewer only where the unwinder
  stops; with the limit 1 or a negative one they are always two, the entry and one frame.\<close>

theorem backtrace_fits:
  assumes "space_inv st ids" and "cur \<noteq> 0" and "- (2 ^ 31) < limit" and "limit \<le> int BACKTRACE_MAX" and "length buf = BACKTRACE_MAX"
  shows "\<exists>n st'. current_ips unw cur entry limit buf st = Return (entry # map (fst (unw cur)) [0..<n], st') \<and>
    1 \<le> n \<and> n + 1 \<le> BACKTRACE_MAX \<and> (2 \<le> limit \<longrightarrow> int n + 1 \<le> limit) \<and> (limit < 2 \<longrightarrow> n = 1) \<and>
    (\<forall>k. k + 1 < n \<longrightarrow> snd (unw cur) k > 0) \<and> (limit \<le> int n + 1 \<or> snd (unw cur) (n - 1) \<le> 0) \<and>
    space_inv st' (cur # take 9 (removeAll cur ids))"
  by (rule current_ips_frames [OF assms])

theorem backtrace_fits_witness:
  "\<exists>n st'. current_ips (\<lambda>_. (\<lambda>k. 0x400 + of_nat k, \<lambda>k. if k < 2 then 1 else 0)) 71 0x123 50 (replicate 50 0) init_space_state =
      Return (0x123 # map (\<lambda>k. 0x400 + of_nat k) [0..<n], st') \<and> n + 1 \<le> 50"
  using backtrace_fits [OF space_inv_init, of 71 50 "replicate 50 0" "\<lambda>_. (\<lambda>k. 0x400 + of_nat k, \<lambda>k. if k < 2 then 1 else 0)" "0x123"]
  by (auto simp: BACKTRACE_MAX_def)

text \<open>Fact (backtrace_limit_one): the limit 1 gives two addresses: the entry and one frame.\<close>

theorem backtrace_limit_one:
  assumes "space_inv st ids" and "cur \<noteq> 0" and "length buf = BACKTRACE_MAX"
  shows "\<exists>st'. current_ips unw cur entry 1 buf st = Return ([entry, fst (unw cur) 0], st')"
  using current_ips_frames [OF assms(1,2) _ _ assms(3), of 1 unw entry] by (auto simp: BACKTRACE_MAX_def)

text \<open>Fact (backtrace_limit_overflow): with the smallest \<open>int\<close> as the limit, \<open>limit - 1\<close> overflows to the largest, and a call
  stack deeper than the array overruns it.\<close>

lemma unwind_loop_overflow:
  assumes "i \<le> length buf" and "int (length buf) < sz" and "\<forall>k. step k > 0"
  shows "unwind_loop frame step sz i buf = Crash BufferOverflow"
  using assms
proof (induction frame step sz i buf rule: unwind_loop.induct)
  case (1 frame step sz i buf)
  show ?case
  proof (cases "i < length buf")
    case True
    moreover have "int (i + 1) < sz \<and> step i > 0" using True 1(3,4) by auto
    ultimately show ?thesis using 1(1) [OF True refl] 1(2-4) by (subst unwind_loop.simps) (simp add: Let_def)
  next
    case False
    then show ?thesis by (subst unwind_loop.simps) simp
  qed
qed

theorem backtrace_limit_overflow:
  assumes "space_inv st ids" and "cur \<noteq> 0" and "length buf = BACKTRACE_MAX" and "\<forall>k. snd (unw cur) k > 0"
  shows "current_ips unw cur entry (- (2 ^ 31)) buf st = Crash BufferOverflow"
proof -
  obtain sp st' where sel: "space_select cur st = Return (sp, st')" "spaces st' sp = \<lparr>upt_info = Some cur, thread_id = cur\<rparr>"
    using space_select_lru [OF assms(1,2)] by blast
  have "sint (int_of_long (- (2 ^ 31) - 1)) = 2 ^ 31 - 1" by (simp add: int_of_long_def)
  moreover have "unwind_loop (fst (unw cur)) (snd (unw cur)) (2 ^ 31 - 1) 0 (tl buf) = Crash BufferOverflow"
    using assms(3,4) by (intro unwind_loop_overflow) (auto simp: BACKTRACE_MAX_def)
  ultimately show ?thesis using sel by (simp add: current_ips_def ptr_backtrace_def case_prod_unfold)
qed

section \<open>What the cache answers\<close>

text \<open>The number of the call in which the library was asked for an instruction pointer.\<close>

definition asked :: "upt_query list \<Rightarrow> u64 \<Rightarrow> nat option" where
  "asked Q ip = find (\<lambda>n. q_ip (Q ! n) = ip) [0..<length Q]"

text \<open>Entry \<open>n\<close> of the cache holds the outcome of the library's \<open>n\<close>-th call.\<close>

definition entry_ok :: "ip_cache \<Rightarrow> nat \<Rightarrow> upt_query \<Rightarrow> upt_answer \<Rightarrow> bool" where
  "entry_ok c n q a \<longleftrightarrow> ii_key c n = q_ip q \<and> ii_ret (ii_mem c n) = a_ret a \<and>
     (0 \<le> a_ret a \<longrightarrow> ii_pi (ii_mem c n) = (a_pi a)\<lparr>unwind_info := CacheInfo n, unwind_info_size := length (a_bytes a)\<rparr> \<and>
        info_mem c (CacheInfo n) = a_bytes a)"

definition cache_ok :: "(nat \<Rightarrow> upt_query \<Rightarrow> upt_answer) \<Rightarrow> ip_cache \<Rightarrow> bool" where
  "cache_ok upt_find c \<longleftrightarrow> ii_next c = length (ii_queries c) \<and> distinct (map q_ip (ii_queries c)) \<and>
     word_table (ii_key c) (ip_info_hash c) (rev [0..<ii_next c]) \<and>
     (\<forall>n < ii_next c. entry_ok c n (ii_queries c ! n) (upt_find n (ii_queries c ! n)))"

lemma cache_ok_init: "cache_ok upt_find init_ip_cache"
  by (simp add: cache_ok_def init_ip_cache_def word_table_def hash_rep_empty)

lemma find_unique:
  assumes "set xs = set ys" and "\<forall>x \<in> set xs. \<forall>y \<in> set xs. P x \<and> P y \<longrightarrow> x = y"
  shows "find P xs = find P ys"
proof (cases "find P xs")
  case None
  then have "find P ys = None" using assms(1) by (simp add: find_None_iff)
  with None show ?thesis by simp
next
  case (Some x)
  then obtain y where y: "find P ys = Some y" using assms(1) by (cases "find P ys") (auto simp: find_None_iff dest: find_Some_set)
  then have "x = y" using assms find_Some_set [OF Some] find_Some_set [OF y] by blast
  with Some y show ?thesis by simp
qed

lemma cache_ok_search:
  assumes "cache_ok upt_find c"
  shows "hash_search (\<lambda>m. word_key (ii_key c m)) (ip_info_hash c) (word_key ip) 8 = Some (asked (ii_queries c) ip)"
proof -
  note ok = assms [unfolded cache_ok_def]
  have key: "ii_key c n = q_ip (ii_queries c ! n)" if "n < ii_next c" for n using ok that by (simp add: entry_ok_def)
  have "hash_search (\<lambda>m. word_key (ii_key c m)) (ip_info_hash c) (word_key ip) 8 =
      Some (find (\<lambda>n. ii_key c n = ip) (rev [0..<ii_next c]))"
    using ok by (intro wt.lookup_find) auto
  also have "find (\<lambda>n. ii_key c n = ip) (rev [0..<ii_next c]) = find (\<lambda>n. ii_key c n = ip) [0..<ii_next c]"
  proof (rule find_unique)
    have "x = y" if "x < ii_next c" "y < ii_next c" "q_ip (ii_queries c ! x) = q_ip (ii_queries c ! y)" for x y
      using ok that nth_eq_iff_index_eq [of "map q_ip (ii_queries c)" x y] by simp
    then show "\<forall>x \<in> set (rev [0..<ii_next c]). \<forall>y \<in> set (rev [0..<ii_next c]). ii_key c x = ip \<and> ii_key c y = ip \<longrightarrow> x = y"
      using key by auto
  qed simp
  also have "\<dots> = asked (ii_queries c) ip" unfolding asked_def using ok key by (intro find_cong) auto
  finally show ?thesis .
qed

lemma entry_ok_frame:
  "ii_mem c' n = ii_mem c n \<Longrightarrow> info_mem c' (CacheInfo n) = info_mem c (CacheInfo n) \<Longrightarrow> entry_ok c' n q a = entry_ok c n q a"
  by (simp add: entry_ok_def ii_key_def)

lemma cache_ok_buffer:
  assumes "cache_ok upt_find c"
  shows "cache_ok upt_find (c\<lparr>info_mem := (info_mem c)(UnwInfoBuf := b)\<rparr>)" (is "cache_ok upt_find ?c")
proof -
  have "entry_ok ?c = entry_ok c" "ii_key ?c = ii_key c" by (simp_all add: fun_eq_iff entry_ok_def ii_key_def)
  with assms show ?thesis by (auto simp: cache_ok_def)
qed

lemma cache_ok_add:
  assumes ok: "cache_ok upt_find c" and new: "asked (ii_queries c) (q_ip q) = None"
    and c': "c' = c\<lparr>ii_mem := (ii_mem c)(ii_next c := ii), ii_next := Suc (ii_next c), ii_queries := ii_queries c @ [q], info_mem := mem\<rparr>"
    and e: "entry_ok c' (ii_next c) q (upt_find (ii_next c) q)"
    and mem: "\<forall>n < ii_next c. mem (CacheInfo n) = info_mem c (CacheInfo n)"
  shows "cache_ok upt_find (c'\<lparr>ip_info_hash := hash_add (\<lambda>m. word_key (ii_key c' m)) (ii_next c) 8 (ip_info_hash c)\<rparr>)"
    (is "cache_ok upt_find (c'\<lparr>ip_info_hash := ?h\<rparr>)")
proof -
  note ok' = ok [unfolded cache_ok_def]
  have frame: "ii_key (c'\<lparr>ip_info_hash := h\<rparr>) = ii_key c'" "entry_ok (c'\<lparr>ip_info_hash := h\<rparr>) = entry_ok c'" for h
    by (simp_all add: ii_key_def entry_ok_def fun_eq_iff)
  have old: "entry_ok c' n (ii_queries c ! n) (upt_find n (ii_queries c ! n))" if "n < ii_next c" for n
    using ok' that mem entry_ok_frame [of c' n c] by (simp add: c')
  have "word_table (ii_key c') (ip_info_hash c) (rev [0..<ii_next c])"
    using ok' wt.holds_cong [of "rev [0..<ii_next c]" "ii_key c'" "ii_key c"] by (auto simp: c' ii_key_def)
  then have "word_table (ii_key c') ?h (ii_next c # rev [0..<ii_next c])" by (intro wt.holds_insert) auto
  moreover have "q_ip q \<notin> set (map q_ip (ii_queries c))"
    using new by (auto simp: asked_def find_None_iff in_set_conv_nth)
  moreover have "entry_ok c' n ((ii_queries c @ [q]) ! n) (upt_find n ((ii_queries c @ [q]) ! n))" if "n < Suc (ii_next c)" for n
    using that old [of n] e ok' by (cases "n = ii_next c") (auto simp: nth_append)
  ultimately show ?thesis using ok' unfolding cache_ok_def frame by (simp add: c')
qed

text \<open>The answer to a query: of the call in which the library was first asked for this instruction pointer, or
  of a new call.\<close>

definition answer :: "(nat \<Rightarrow> upt_query \<Rightarrow> upt_answer) \<Rightarrow> upt_query list \<Rightarrow> upt_query \<Rightarrow> upt_answer" where
  "answer upt_find Q q =
     (case asked Q (q_ip q) of Some n \<Rightarrow> upt_find n (Q ! n) | None \<Rightarrow> upt_find (length Q) q)"

lemma asked_Some: "asked Q ip = Some n \<Longrightarrow> n < length Q \<and> q_ip (Q ! n) = ip"
  by (auto simp: asked_def dest: find_Some_set)

text \<open>C15 (find_proc_info_cached): the cache is one by instruction pointer alone. A query for an instruction pointer
  that was not asked for before is passed on to the library, with all its arguments, and its outcome is kept, a
  failure too; every later query for that instruction pointer gives the code, the information and the bytes of
  unwind information of that first outcome, whatever its address space, \<open>need_unwind_info\<close> and argument are, and
  does not ask the library. The bytes of a hit are in the static buffer, and are there until the next hit;
  memory is available and the unwind information has at most 100 bytes.\<close>

theorem find_proc_info_cached:
  assumes ok: "cache_ok upt_find c" and a: "a = answer upt_find (ii_queries c) q" and small: "length (a_bytes a) \<le> UNW_INFO_BUF"
  shows "\<exists>pi' c'. ptr_find_proc_info True True upt_find q pi0 c = Return (a_ret a, pi', c') \<and> cache_ok upt_find c' \<and>
    ii_queries c' = (if asked (ii_queries c) (q_ip q) = None then ii_queries c @ [q] else ii_queries c) \<and>
    (0 \<le> a_ret a \<longrightarrow> pi' = (a_pi a)\<lparr>unwind_info := unwind_info pi', unwind_info_size := length (a_bytes a)\<rparr> \<and>
       take (unwind_info_size pi') (info_mem c' (unwind_info pi')) = a_bytes a \<and>
       (asked (ii_queries c) (q_ip q) \<noteq> None \<longrightarrow> unwind_info pi' = UnwInfoBuf))"
proof (cases "asked (ii_queries c) (q_ip q)")
  case (Some n)
  with ok a have e: "entry_ok c n (ii_queries c ! n) a" by (auto simp: cache_ok_def answer_def dest: asked_Some)
  show ?thesis
  proof (cases "a_ret a < 0")
    case True
    with e Some ok show ?thesis by (simp add: ptr_find_proc_info_def cache_ok_search [OF ok] entry_ok_def Let_def)
  next
    case False
    with e Some small cache_ok_buffer [OF ok] show ?thesis
      by (simp add: ptr_find_proc_info_def cache_ok_search [OF ok] entry_ok_def Let_def unw_proc_info_copy_def)
  qed
next
  case None
  define k where "k = length (ii_queries c)"
  have k: "ii_next c = k" "a = upt_find k q" using ok a None by (simp_all add: cache_ok_def k_def answer_def)
  define copy where "copy = (if 0 \<le> a_ret a then (upt_pi k a)\<lparr>unwind_info := CacheInfo k\<rparr> else no_info)"
  define mem where "mem = (if 0 \<le> a_ret a then (info_mem c)(LibInfo k := a_bytes a, CacheInfo k := a_bytes a)
    else (info_mem c)(LibInfo k := a_bytes a))"
  define c1 where "c1 = c\<lparr>ii_mem := (ii_mem c)(ii_next c := \<lparr>ii_ip = q_ip q, ii_pi = copy, ii_ret = a_ret a\<rparr>),
    ii_next := Suc (ii_next c), ii_queries := ii_queries c @ [q], info_mem := mem\<rparr>"
  have run: "ptr_find_proc_info True True upt_find q pi0 c = Return (a_ret a, upt_pi k a,
      c1\<lparr>ip_info_hash := hash_add (\<lambda>m. word_key (ii_key c1 m)) (ii_next c) 8 (ip_info_hash c)\<rparr>)"
    using None by (simp add: ptr_find_proc_info_def cache_ok_search [OF ok] unw_proc_info_copy_def Let_def
        k_def [symmetric] k(2) [symmetric] c1_def mem_def copy_def upt_pi_def k(1))
  have "entry_ok c1 (ii_next c) q (upt_find (ii_next c) q)"
    by (simp add: entry_ok_def ii_key_def c1_def copy_def mem_def upt_pi_def k(1) k(2) [symmetric])
  from cache_ok_add [OF ok None c1_def this] have "cache_ok upt_find
      (c1\<lparr>ip_info_hash := hash_add (\<lambda>m. word_key (ii_key c1 m)) (ii_next c) 8 (ip_info_hash c)\<rparr>)"
    by (simp add: mem_def k(1))
  then show ?thesis using run None by (simp add: c1_def mem_def upt_pi_def)
qed

text \<open>A library that knows the procedure at every address, by its address space.\<close>

definition demo_upt :: "nat \<Rightarrow> upt_query \<Rightarrow> upt_answer" where
  "demo_upt k q = \<lparr>a_ret = 0, a_pi = no_info\<lparr>start_ip := q_as q\<rparr>, a_bytes = [of_nat k]\<rparr>"

theorem find_proc_info_cached_witness:
  "\<exists>pi' c' pi'' c''. ptr_find_proc_info True True demo_upt \<lparr>q_as = 1, q_ip = 0x401, q_need = 1, q_arg = 5\<rparr> no_info init_ip_cache =
      Return (0, pi', c') \<and> start_ip pi' = 1 \<and>
    ptr_find_proc_info True True demo_upt \<lparr>q_as = 2, q_ip = 0x401, q_need = 0, q_arg = 6\<rparr> no_info c' = Return (0, pi'', c'') \<and>
    start_ip pi'' = 1 \<and> take 1 (info_mem c'' (unwind_info pi'')) = [0]"
proof -
  let ?q1 = "\<lparr>q_as = 1, q_ip = 0x401, q_need = 1, q_arg = 5\<rparr>" and ?q2 = "\<lparr>q_as = 2, q_ip = 0x401, q_need = 0, q_arg = 6\<rparr>"
  let ?a = "\<lparr>a_ret = 0, a_pi = no_info\<lparr>start_ip := 1\<rparr>, a_bytes = [0]\<rparr>"
  have Q: "ii_queries init_ip_cache = []" by (simp add: init_ip_cache_def)
  have a1: "?a = answer demo_upt (ii_queries init_ip_cache) ?q1" "?a = answer demo_upt [?q1] ?q2"
    "asked (ii_queries init_ip_cache) 0x401 = None"
    by (simp_all add: answer_def asked_def Q demo_upt_def)
  obtain pi' c' where c': "ptr_find_proc_info True True demo_upt ?q1 no_info init_ip_cache = Return (0, pi', c')"
    "cache_ok demo_upt c'" "ii_queries c' = [?q1]"
    "pi' = (no_info\<lparr>start_ip := 1\<rparr>)\<lparr>unwind_info := unwind_info pi', unwind_info_size := 1\<rparr>"
    using find_proc_info_cached [OF cache_ok_init a1(1), of no_info] a1(3) by (auto simp: Q UNW_INFO_BUF_def)
  obtain pi'' c'' where c'': "ptr_find_proc_info True True demo_upt ?q2 no_info c' = Return (0, pi'', c'')"
    "pi'' = (no_info\<lparr>start_ip := 1\<rparr>)\<lparr>unwind_info := unwind_info pi'', unwind_info_size := 1\<rparr>"
    "take (unwind_info_size pi'') (info_mem c'' (unwind_info pi'')) = [0]"
    using find_proc_info_cached [OF c'(2), unfolded c'(3), OF a1(2), of no_info] by (auto simp: UNW_INFO_BUF_def)
  have "start_ip pi' = 1" by (subst c'(4)) simp
  moreover have "start_ip pi'' = 1" "unwind_info_size pi'' = 1" by (subst c''(2), simp)+
  ultimately show ?thesis using c' c'' by auto
qed

text \<open>Unwind information of more than 100 bytes does not fit the static buffer: the second query for the same
  instruction pointer overruns it.\<close>

lemma unw_info_overflow:
  assumes ok: "cache_ok upt_find c" and n: "asked (ii_queries c) (q_ip q) = Some n"
    and a: "a = upt_find n (ii_queries c ! n)" "0 \<le> a_ret a" "UNW_INFO_BUF < length (a_bytes a)"
  shows "ptr_find_proc_info ok1 ok2 upt_find q pi0 c = Crash BufferOverflow"
proof -
  have "entry_ok c n (ii_queries c ! n) a" using ok a(1) asked_Some [OF n] by (simp add: cache_ok_def)
  then show ?thesis
    using a(2,3) n by (simp add: ptr_find_proc_info_def cache_ok_search [OF ok] entry_ok_def Let_def unw_proc_info_copy_def)
qed

text \<open>All hits share the static buffer: a hit gives the bytes of its entry to every information that an earlier hit
  returned.\<close>

lemma unw_info_shared:
  assumes ok: "cache_ok upt_find c" and n: "asked (ii_queries c) (q_ip q) = Some n"
    and a: "a = upt_find n (ii_queries c ! n)" "0 \<le> a_ret a" "length (a_bytes a) \<le> UNW_INFO_BUF"
  shows "\<exists>pi' c'. ptr_find_proc_info ok1 ok2 upt_find q pi0 c = Return (a_ret a, pi', c') \<and>
    (\<forall>old. unwind_info old = UnwInfoBuf \<longrightarrow> unwind_info pi' = unwind_info old \<and>
       take (length (a_bytes a)) (info_mem c' (unwind_info old)) = a_bytes a)"
proof -
  have "entry_ok c n (ii_queries c ! n) a" using ok a(1) asked_Some [OF n] by (simp add: cache_ok_def)
  then show ?thesis
    using a(2,3) n by (simp add: ptr_find_proc_info_def cache_ok_search [OF ok] entry_ok_def Let_def unw_proc_info_copy_def)
qed

section \<open>Reading from the copies\<close>

definition sections_hold :: "map_state \<Rightarrow> map_section_s list \<Rightarrow> bool" where
  "sections_hold st mss \<longleftrightarrow> (\<exists>ns. is_list (g_map_sections st) () ns \<and> (\<forall>n \<in> set ns. n < ms_next st) \<and> map (ms_mem st) ns = mss)"






lemma ptr_access_mem_sections:
  assumes "sections_hold st mss"
  shows "ptr_access_mem st tid t addr = run_bind (access_sections mss addr) (\<lambda>r.
       case r of Some v \<Rightarrow> Return (0, v)
       | None \<Rightarrow> let v = ptrace_get_data tid addr t in if v = -1 then Return (- UNW_EUNSPEC, v) else Return (0, v))"
proof -
  obtain ns where ns: "is_list (g_map_sections st) () ns" "map (ms_mem st) ns = mss" using assms by (auto simp: sections_hold_def)
  have "list_for_each (LHead ()) (g_map_sections st) = Some (map LNode ns)" by (rule is_list_list_for_each [OF ns(1)])
  then show ?thesis using ns(2) by (simp add: ptr_access_mem_def comp_def)
qed









section \<open>Boundary behaviour\<close>

text \<open>The end of a copy counts as inside it: an access there reads behind a copy whose file fills the mapping.\<close>

lemma access_at_end:
  assumes "sections_hold st [ms]" and "length (ms_data ms) = unat (ms_end ms - ms_start ms)" and "ms_start ms \<le> ms_end ms"
  shows "ptr_access_mem st tid t (ms_end ms) = Crash BufferOverflow"
proof -
  have "section_word ms (ms_end ms) = Crash BufferOverflow" using assms(2) by (simp add: section_word_def Let_def)
  then show ?thesis using assms(3) by (simp add: ptr_access_mem_sections [OF assms(1)])
qed

text \<open>A word of the target with all bits set is taken for an error.\<close>

lemma access_all_ones:
  assumes "sections_hold st []" and "ptrace_get_data tid addr t = -1"
  shows "ptr_access_mem st tid t addr = Return (- UNW_EUNSPEC, -1)"
  using assms(2) by (simp add: ptr_access_mem_sections [OF assms(1)])

end
