(* ===== verification/Free_BSD.thy ===== *)
theory Free_BSD
  imports Machines Ptr_Backtrace
begin

unbundle bit_operations_syntax

text \<open>
  The FreeBSD parts of \<open>src/ptrace_utils.h\<close>, of \<open>src/machines.h\<close> (amd64) and of
  \<open>_ptr_access_mem\<close>. FreeBSD's \<open>PT_READ_I\<close> and \<open>PT_WRITE_I\<close> transfer an \<open>int\<close>, 32 bits, also on amd64, and
  the wrappers return it as \<open>int\<close>: assigned to a \<open>uintptr_t\<close> it is sign-extended. Here, too, a request on a process
  that is not stopped fails (EBUSY) and changes nothing.
\<close>

section \<open>The wrappers\<close>

definition ptrace_get_regs_fbsd :: "pid \<Rightarrow> 'r \<Rightarrow> ('a, 'r) target \<Rightarrow> 'r" where
  "ptrace_get_regs_fbsd p buf t = (if tstop t p then tregs t p else buf)"

definition ptrace_set_regs_fbsd :: "pid \<Rightarrow> 'r \<Rightarrow> ('a, 'r) target \<Rightarrow> ('a, 'r) target" where
  "ptrace_set_regs_fbsd p r t = (if tstop t p then t\<lparr>tregs := (tregs t)(p := r)\<rparr> else t)"

definition peek32 :: "(u64 \<Rightarrow> u8) \<Rightarrow> u64 \<Rightarrow> u32" where
  "peek32 m a = le_word (map (\<lambda>i. m (a + of_nat i)) [0..<4])"

definition poke32 :: "(u64 \<Rightarrow> u8) \<Rightarrow> u64 \<Rightarrow> u32 \<Rightarrow> u64 \<Rightarrow> u8" where
  "poke32 m a d = (\<lambda>x. if unat (x - a) < 4 then ucast (drop_bit (8 * unat (x - a)) d) else m x)"

definition ptrace_get_data_fbsd :: "pid \<Rightarrow> u64 \<Rightarrow> (u64, 'r) target \<Rightarrow> cint" where
  "ptrace_get_data_fbsd p address t = (if tstop t p then peek32 (space_of p t) address else -1)"

definition ptrace_set_data_fbsd :: "pid \<Rightarrow> u64 \<Rightarrow> cint \<Rightarrow> (u64, 'r) target \<Rightarrow> (u64, 'r) target" where
  "ptrace_set_data_fbsd p address d t =
     (if tstop t p then set_space p (poke32 (space_of p t) address d) t else t)"

definition ptrace_continue_fbsd :: "pid \<Rightarrow> int \<Rightarrow> ('a, 'r) target \<Rightarrow> ('a, 'r) target" where
  "ptrace_continue_fbsd p signum t = t\<lparr>tlog := tlog t @ [Continue p signum], tstop := (tstop t)(p := False)\<rparr>"

definition ptrace_attach_fbsd :: "bool \<Rightarrow> pid \<Rightarrow> ('a, 'r) target \<Rightarrow> ('a, 'r) target run" where
  "ptrace_attach_fbsd ok p t = (if ok then Return (t\<lparr>tlog := tlog t @ [Attach p]\<rparr>) else Exit 4)"

definition ptrace_trace_child_fbsd :: "pid \<Rightarrow> ('a, 'r) target \<Rightarrow> ('a, 'r) target" where
  "ptrace_trace_child_fbsd p t = t\<lparr>tlog := tlog t @ [TraceChild p]\<rparr>"

definition ptrace_detach_fbsd :: "pid \<Rightarrow> int \<Rightarrow> ('a, 'r) target \<Rightarrow> ('a, 'r) target" where
  "ptrace_detach_fbsd p signum t = t\<lparr>tlog := tlog t @ [Detach p signum], tstop := (tstop t)(p := False)\<rparr>"

text \<open>The flags that \<open>PT_LWPINFO\<close> returns.\<close>

definition PL_FLAG_FORKED :: u32 where
  "PL_FLAG_FORKED = 0x08"

definition ptrace_new_child_fbsd :: "u32 \<Rightarrow> u32" where
  "ptrace_new_child_fbsd pl_flags = pl_flags AND PL_FLAG_FORKED"

section \<open>amd64\<close>

definition call_return_address_fbsd :: "pid \<Rightarrow> x86_64_regs \<Rightarrow> (u64, 'r) target \<Rightarrow> u64" where
  "call_return_address_fbsd p regs t = scast (ptrace_get_data_fbsd p (rsp regs) t)"

definition set_breakpoint_fbsd :: "pid \<Rightarrow> u64 \<Rightarrow> u64 \<Rightarrow> (u64, 'r) target \<Rightarrow> (u64, 'r) target" where
  "set_breakpoint_fbsd p address code t =
     ptrace_set_data_fbsd p address (ucast ((code AND 0xFFFFFF00) OR 0xCC)) t"

definition is_breakpoint_fbsd :: "pid \<Rightarrow> u64 \<Rightarrow> (u64, 'r) target \<Rightarrow> bool" where
  "is_breakpoint_fbsd p address t \<longleftrightarrow> ptrace_get_data_fbsd p address t AND 0xFF = 0xCC"

text \<open>The end of \<open>_ptr_access_mem\<close>, for an address in no copy: two reads make a word.\<close>

definition access_target_fbsd :: "pid \<Rightarrow> (u64, 'r) target \<Rightarrow> u64 \<Rightarrow> int \<times> u64" where
  "access_target_fbsd p t addr =
     (let v = scast (ptrace_get_data_fbsd p addr t) :: u64
      in if v = -1 then (- UNW_EUNSPEC, v)
         else let high = scast (ptrace_get_data_fbsd p (addr + 4) t) :: u64
              in (0, push_bit 32 high OR (v AND 0xFFFFFFFF)))"

section \<open>Properties\<close>

lemma byte_le_word:
  assumes "i < length bs" and "8 * i + 8 \<le> LENGTH('w)"
  shows "(ucast (drop_bit (8 * i) (le_word bs :: 'w::len word)) :: u8) = bs ! i"
proof (rule bit_word_eqI)
  fix n assume n: "n < LENGTH(8)"
  then have "(8 * i + n) div 8 = i" "(8 * i + n) mod 8 = n" "8 * i + n < LENGTH('w)" using assms(2) by simp_all
  with n assms show "bit (ucast (drop_bit (8 * i) (le_word bs :: 'w word)) :: u8) n = bit (bs ! i) n"
    by (simp add: bit_simps bit_le_word)
qed

lemma byte_peek32: "i < 4 \<Longrightarrow> (ucast (drop_bit (8 * i) (peek32 m a)) :: u8) = m (a + of_nat i)"
  unfolding peek32_def by (subst byte_le_word) auto

text \<open>What a trap changes: only the byte at the address.\<close>

lemma set_breakpoint_fbsd_space:
  assumes "tstop t p"
  shows "set_breakpoint_fbsd p a (scast (peek32 m a)) t =
     set_space p (\<lambda>x. if x = a then 0xCC else if unat (x - a) < 4 then m x else space_of p t x) t"
proof -
  define d :: u32 where "d = ucast (((scast (peek32 m a) :: u64) AND 0xFFFFFF00) OR 0xCC)"
  define b :: u8 where "b = 0xCC"
  have mask: "(0xFFFFFF00 :: u64) = mask 32 AND NOT (mask 8)" "(0xCC :: u64) = ucast b"
    by (simp_all add: mask_eq_decr_exp b_def)
  have "poke32 (space_of p t) a d x = (if x = a then 0xCC else if unat (x - a) < 4 then m x else space_of p t x)" for x
  proof (cases "unat (x - a) < 4")
    case True
    define i where "i = unat (x - a)"
    have i: "i < 4" "a + of_nat i = x" using True by (simp_all add: i_def)
    have "(ucast (drop_bit (8 * i) d) :: u8) = (if i = 0 then b else ucast (drop_bit (8 * i) (peek32 m a)))"
    proof (rule bit_word_eqI)
      fix n assume n: "n < LENGTH(8)"
      then show "bit (ucast (drop_bit (8 * i) d) :: u8) n =
          bit (if i = 0 then b else ucast (drop_bit (8 * i) (peek32 m a)) :: u8) n"
        unfolding d_def mask using i(1) bit_imp_le_length [of b "8 * i + n"] by (cases "i = 0") (auto simp: bit_simps dest: bit_imp_le_length)
    qed
    then have "(ucast (drop_bit (8 * i) d) :: u8) = (if i = 0 then b else m x)"
      using byte_peek32 [OF i(1), of m a] i(2) by simp
    moreover have "i = 0 \<longleftrightarrow> x = a" by (auto simp: i_def unat_eq_zero)
    ultimately show ?thesis using True by (simp add: poke32_def i_def b_def)
  qed (auto simp: poke32_def)
  then have "poke32 (space_of p t) a d = (\<lambda>x. if x = a then 0xCC else if unat (x - a) < 4 then m x else space_of p t x)" by blast
  then show ?thesis using assms by (simp add: set_breakpoint_fbsd_def ptrace_set_data_fbsd_def d_def)
qed

text \<open>On FreeBSD, too, writing back what was read removes a trap, and a trap that was set is recognised; nothing
  but the byte at the address changes.\<close>

lemma fbsd_trap_round_trip:
  fixes t :: "(u64, 'r) target" and p a
  assumes stop: "tstop t p"
  defines "c \<equiv> ptrace_get_data_fbsd p a t"
  shows "ptrace_set_data_fbsd p a c (set_breakpoint_fbsd p a (scast c) t) = t"
    and "is_breakpoint_fbsd p a (set_breakpoint_fbsd p a (scast c) t)"
    and "x \<noteq> a \<Longrightarrow> space_of p (set_breakpoint_fbsd p a (scast c) t) x = space_of p t x"
proof -
  let ?s = "space_of p t"
  have trap: "set_breakpoint_fbsd p a (scast c) t = set_space p (\<lambda>x. if x = a then 0xCC else ?s x) t"
    using set_breakpoint_fbsd_space [OF stop, of a ?s] stop
    by (simp add: c_def ptrace_get_data_fbsd_def if_distrib cong: if_cong)
  have "poke32 (\<lambda>x. if x = a then 0xCC else ?s x) a (peek32 ?s a) x = ?s x" for x
  proof (cases "unat (x - a) < 4")
    case True
    from byte_peek32 [OF True, of ?s a] show ?thesis using True by (simp add: poke32_def)
  qed (auto simp: poke32_def)
  then have "poke32 (\<lambda>x. if x = a then 0xCC else ?s x) a (peek32 ?s a) = ?s" by blast
  then show "ptrace_set_data_fbsd p a c (set_breakpoint_fbsd p a (scast c) t) = t"
    unfolding trap using stop by (simp add: ptrace_set_data_fbsd_def c_def ptrace_get_data_fbsd_def)
  have "(ucast (peek32 m a) :: u8) = m a" for m using byte_peek32 [of 0 m a] by simp
  moreover have "w AND 0xFF = ucast (ucast w :: u8)" for w :: u32
  proof -
    have "(0xFF :: u32) = mask 8" by (simp add: mask_eq_decr_exp)
    moreover have "w AND mask 8 = ucast (ucast w :: u8)" by (rule bit_word_eqI) (auto simp: bit_simps)
    ultimately show ?thesis by metis
  qed
  ultimately show "is_breakpoint_fbsd p a (set_breakpoint_fbsd p a (scast c) t)"
    unfolding trap using stop by (simp add: is_breakpoint_fbsd_def ptrace_get_data_fbsd_def)
  show "space_of p (set_breakpoint_fbsd p a (scast c) t) x = ?s x" if "x \<noteq> a" using that unfolding trap by simp
qed

lemma bit_peek64: "bit (peek m a :: u64) n \<longleftrightarrow> n < 64 \<and> bit (m (a + of_nat (n div 8))) (n mod 8)"
proof (cases "n < 64")
  case True
  then have "n div 8 < 8" by simp
  with True show ?thesis by (simp add: peek_def bit_le_word)
qed (simp add: impossible_bit)

lemma bit_peek32: "bit (peek32 m a) n \<longleftrightarrow> n < 32 \<and> bit (m (a + of_nat (n div 8))) (n mod 8)"
proof (cases "n < 32")
  case True
  then have "n div 8 < 4" by simp
  with True show ?thesis by (simp add: peek32_def bit_le_word)
qed (simp add: impossible_bit)

lemma peek32_ucast: "peek32 m a = ucast (peek m a :: u64)"
  by (rule bit_word_eqI) (simp add: bit_peek32 bit_peek64 bit_simps)

text \<open>The two reads of the unwinder give the 64-bit word, unless its lower half has all bits set.\<close>

lemma access_target_fbsd_word:
  assumes "ptrace_get_data_fbsd p addr t \<noteq> -1" and "tstop t p"
  shows "access_target_fbsd p t addr = (0, peek (space_of p t) addr)"
proof -
  let ?m = "space_of p t"
  have ones: "(scast v :: u64) = -1 \<longleftrightarrow> v = -1" for v :: u32
  proof
    assume "(scast v :: u64) = -1"
    moreover have "(ucast (scast v :: u64) :: u32) = v" by (rule bit_word_eqI) (simp add: bit_simps)
    moreover have "(ucast (-1 :: u64) :: u32) = -1" by (rule bit_word_eqI) (simp add: bit_simps)
    ultimately show "v = -1" by simp
  qed simp
  have "push_bit 32 (scast (peek32 ?m (addr + 4)) :: u64) OR (scast (peek32 ?m addr) AND mask 32) = peek ?m addr"
  proof (rule bit_word_eqI)
    fix n assume n: "n < LENGTH(64)"
    show "bit (push_bit 32 (scast (peek32 ?m (addr + 4)) :: u64) OR (scast (peek32 ?m addr) AND mask 32)) n = bit (peek ?m addr) n"
    proof (cases "n < 32")
      case True
      then show ?thesis by (simp add: bit_simps bit_peek32 bit_peek64)
    next
      case False
      then obtain k where k: "n = k + 32" by (metis add.commute le_Suc_ex not_less)
      then have "n div 8 = k div 8 + 4" "k < 32" using n by auto
      moreover have "n mod 8 = k mod 8" using k by presburger
      moreover have "addr + 4 + of_nat (k div 8) = addr + of_nat (k div 8 + 4)" by simp
      ultimately show ?thesis unfolding k by (simp only: bit_simps bit_peek32 bit_peek64) (simp add: k algebra_simps)
    qed
  qed
  moreover have "(0xFFFFFFFF :: u64) = mask 32" by (simp add: mask_eq_decr_exp)
  ultimately show ?thesis using assms ones
    by (simp only: access_target_fbsd_def ptrace_get_data_fbsd_def Let_def) simp
qed

text \<open>But the return address of a call, read with one transfer, is cut to its lower 32 bits and sign-extended: it
  is wrong for every address that does not fit them.\<close>

lemma fbsd_return_address_cut:
  assumes "peek (space_of p t) (rsp regs) = ra" and "ra \<noteq> scast (ucast ra :: u32)" and "tstop t p"
  shows "call_return_address_fbsd p regs t \<noteq> ra"
  using assms by (auto simp: call_return_address_fbsd_def ptrace_get_data_fbsd_def peek32_ucast)

end
