(* ===== verification/Spec2Isabelle.thy ===== *)
theory Spec2Isabelle
  imports Monitor_Threads Table_Build Free_BSD
begin

text \<open>
  \<^bold>\<open>memleax\<close> attaches to a running process and reports the heap blocks that it allocates and does not
  free for too long. It puts breakpoints on \<open>malloc\<close>, \<open>free\<close>, \<open>realloc\<close> and \<open>calloc\<close>, follows each call
  from its entry to its return, keeps a block for every allocation with the call stack that made it,
  and moves blocks that are older than a threshold to the expired list. This development models the C
  sources under \<open>src/\<close> and proves what they promise. LP64, little-endian machines are assumed; the
  monitoring loop is the one of Linux on x86-64.

  \<^bold>\<open>How the parts interact.\<close> At start, \<open>src/memleax.c\<close> reads the options, asks \<open>src/proc_info.c\<close> for the
  mappings of the process, and builds four tables: symbols (\<open>src/symtab.c\<close>), source lines
  (\<open>src/debug_line.c\<close>), names of mappings (\<open>src/addr_maps.c\<close>) and copies of the mapped files
  (\<open>src/ptr_backtrace.c\<close>). The first two look for separate debug files through \<open>src/debug_file.c\<close>. Then
  the loop waits for stops of the threads; at the return of an API function the handlers of
  \<open>src/breakpoint.c\<close> call \<open>src/memblock.c\<close>, which asks \<open>src/callstack.c\<close> for the current call stack, and
  this asks \<open>src/ptr_backtrace.c\<close> for the frames. \<open>src/list.h\<close>, \<open>src/hash.h\<close> and \<open>src/array.h\<close> are the
  containers; \<open>src/machines.h\<close> and \<open>src/ptrace_utils.h\<close> are the access to the target.

  \<^bold>\<open>Theories.\<close>
  \<^item> \<open>Mlx_Prelude\<close>: integer types and conversions of C; the outcomes of a C function (\<open>run\<close>: it returns,
    exits, accesses memory it must not, or loops for ever); \<open>strrchr\<close> and \<open>strstr\<close>; shared lemmas.
  \<^item> \<open>C_Text\<close>: \<open>atoi\<close>, \<open>sscanf\<close>, \<open>fgets\<close> and the printing of numbers; scanning reads back what printing
    writes.
  \<^item> \<open>Linked_List\<close> (\<open>list.h\<close>, first part): every operation on an explicit heap of links with NULL; the locale
    \<open>node_lists\<close> is the contract, interpreted as \<open>dll\<close>.
  \<^item> \<open>Hash_Table\<close> (\<open>list.h\<close>, second part, and \<open>hash.h\<close>): hash lists with \<open>pprev\<close>, the hash function on 32-bit
    words; the locale \<open>keyed_table\<close>, interpreted as \<open>wt\<close>.
  \<^item> \<open>Dyn_Array\<close> (\<open>array.h\<close>): growth, failures of memory, glibc's merge sort; the locales \<open>key_sort\<close> and
    \<open>interval_search\<close>, the latter interpreted on all four binary searches of the program.
  \<^item> \<open>Addr_Maps\<close>, \<open>Sym_Tab\<close>, \<open>Debug_Line\<close>: the tables and their searches.
  \<^item> \<open>Proc_Info\<close> (\<open>proc_info.c\<close>): one call of \<open>proc_maps\<close> or \<open>proc_tasks\<close> as a function of its static
    variables; \<open>proc_maps_each\<close> is the loop \<open>while ((path = proc_maps(...)) != NULL)\<close> that the builders share.
    On lines within the limits of its buffers, the loop sees exactly the executable mappings of files with no blank
    in their names.
  \<^item> \<open>Debug_Crc\<close>, \<open>Debug_File\<close> (\<open>debug_file.c\<close>): the checksum equals its bitwise definition; build id and
    debug link; \<open>debug_try_init\<close> and \<open>debug_try_get\<close> with all static variables refine a search through a list
    of candidates, and no buffer is overrun on well-formed files.
  \<^item> \<open>Table_Build\<close>: \<open>symtab_build\<close>, \<open>debug_line_build\<close> and \<open>addr_maps_build\<close> over \<open>proc_maps\<close> and the candidates;
    the locale \<open>table_source\<close> is what they rely on of the function that reads one file.
  \<^item> \<open>Target_Memory\<close> (\<open>ptrace_utils.h\<close>), \<open>Machines\<close> (\<open>machines.h\<close>): the target as address spaces, registers, the
    set of stopped threads and a log of requests; a request on a thread that is not stopped fails and changes
    nothing; traps on four machines, with the bytes they write, under the locale \<open>trap_machine\<close>.
  \<^item> \<open>Ptr_Backtrace\<close> (\<open>ptr_backtrace.c\<close>): reads from the copies, the cache of procedure
    information by instruction pointer with the static buffer that its results share, the address spaces by most recent use, the bounds of a backtrace.
  \<^item> \<open>Free_BSD\<close>: the FreeBSD wrappers of \<open>ptrace_utils.h\<close>, which transfer 32 bits, with the traps on amd64 and the
    unwinder's read of a word.
  \<^item> \<open>Call_Stack\<close> (\<open>callstack.c\<close>), \<open>Mem_Block\<close> and \<open>Mem_Expiry\<close> (\<open>memblock.c\<close>): the record of blocks and call
    stacks on the pointer-level containers, its invariant \<open>tracking\<close>, and the expiry.
  \<^item> \<open>Break_Point\<close> (\<open>breakpoint.c\<close>): handlers, setting and removing the traps.
  \<^item> \<open>Monitor\<close> (\<open>memleax.c\<close>): options, one iteration of the loop as \<open>main_step\<close> (\<open>main_wait\<close>, \<open>main_status\<close>,
    \<open>main_stop\<close>, \<open>main_trap\<close> are its parts), start and end. \<open>Monitor_Text\<close> and \<open>Monitor_Run\<close>: in every reachable
    state, unless a process made by \<open>vfork\<close> was detached, the target's text is the original one with exactly the
    expected traps; the end restores it if the main thread is stopped then, and leaves the traps if it runs.
    \<open>Monitor_Calls\<close>: an iteration does not crash and ends the program only when it cannot open \<open>/proc/pid/task\<close>;
    calls are tracked. \<open>Monitor_Threads\<close>: which threads are held, woken, continued and detached, with the exact
    requests; options; the final report, with and without memory.
  \<^item> This theory: properties that span components: the start takes over every thread that \<open>proc_tasks\<close> finds, and
    the accepted options bound a recorded call stack.

  \<^bold>\<open>Outside of the model\<close> are arguments of the definitions: what libelf, the DWARF libraries and libunwind
  return, the contents of files and of \<open>/proc\<close>, whether \<open>malloc\<close> succeeds, what uninitialised memory
  holds, the clock, the results of \<open>waitpid\<close> in the loop and of \<open>PTRACE_ATTACH\<close>. The other requests of \<open>ptrace\<close>
  succeed on a stopped thread and fail on any other; which threads are stopped follows from the results of
  \<open>waitpid\<close> and the requests made (\<open>tstop\<close>). The \<open>waitpid\<close> after an attachment is taken to succeed, and
  accesses to unmapped memory of the target are not represented. Signed additions that may
  overflow wrap around, as compiled code does; the properties assume that they do not, and the
  facts beside them show what happens when they do.

  \<^bold>\<open>Loops.\<close> No definition uses fuel. The loops over files, candidates, frames and intervals are total
  functions with a termination proof; walks along links are partial functions in the option
  monad, and the lemmas on well-formed lists show that they return. Iterations of the monitoring loop are
  the steps of the inductive relation \<open>monitored\<close>.

  \<^bold>\<open>Not modelled\<close>: the text printed to the terminal (the numbers and addresses in it are), \<open>getopt\<close> itself,
  closing of descriptors, the time that passes inside an iteration, and the build files.
\<close>

section \<open>Properties that span components\<close>

text \<open>The requests with which a thread is taken over.\<close>

definition takeover :: "pid \<Rightarrow> request list" where
  "takeover n = [Attach n, TraceChild n, Continue n 0]"

lemma attach_tasks_takes_over:
  assumes "\<forall>n \<in> set ts. 0 < n"
  shows "attach_tasks (\<lambda>_. True) p (ts @ [0]) t =
    Return (t\<lparr>tlog := tlog t @ concat (map takeover (filter (\<lambda>n. n \<noteq> p) ts)),
      tstop := (\<lambda>q. tstop t q \<and> (q = p \<or> q \<notin> set ts))\<rparr>)"
  using assms
proof (induction ts arbitrary: t)
  case (Cons a ts)
  then show ?case
    by (auto simp: ptrace_attach_def ptrace_trace_child_def ptrace_continue_def takeover_def waited_def fun_eq_iff
        intro!: target.fold_congs)
qed simp

text \<open>C22 (all_threads_attached): at the start, the loop over \<open>proc_tasks\<close> attaches to every thread of the
  process other than the main one, has its children traced and continues it, in the order of the
  directory, and changes nothing else of the target: these threads run afterwards.\<close>

theorem all_threads_attached:
  assumes "task_dir pf = Some (task_names tids)" and "\<forall>n \<in> set tids. 0 < n \<and> n < 2 ^ 31"
  shows "\<exists>ts. proc_tasks_calls (Suc (length tids)) pf None = Return (ts, None) \<and>
    attach_tasks (\<lambda>_. True) p ts t =
      Return (t\<lparr>tlog := tlog t @ concat (map takeover (filter (\<lambda>n. n \<noteq> p) (map int tids))),
        tstop := (\<lambda>q. tstop t q \<and> (q = p \<or> q \<notin> int ` set tids))\<rparr>)"
  using proc_tasks_calls_dir [OF assms] attach_tasks_takes_over [of "map int tids" p t] assms(2) by auto

theorem all_threads_attached_witness:
  "\<exists>ts. proc_tasks_calls 3 \<lparr>maps_file = None, exe_link = None, task_dir = Some (task_names [71, 72])\<rparr> None = Return (ts, None) \<and>
    attach_tasks (\<lambda>_. True) 71 ts demo_target =
      Return (demo_target\<lparr>tlog := tlog demo_target @ [Attach 72, TraceChild 72, Continue 72 0],
        tstop := (\<lambda>q. tstop demo_target q \<and> (q = 71 \<or> q \<notin> {71, 72}))\<rparr>)"
  using all_threads_attached [of "\<lparr>maps_file = None, exe_link = None, task_dir = Some (task_names [71, 72])\<rparr>" "[71, 72]" 71 demo_target]
  by (simp add: takeover_def numeral_3_eq_3)

text \<open>A call stack recorded under accepted options (but for the smallest \<open>int\<close> as the limit) has between two and \<open>BACKTRACE_MAX\<close> addresses.\<close>

lemma recorded_stack_bounded:
  assumes "parse_args cs rest = Return (og, p)" and "- (2 ^ 31) < opt_backtrace_limit og" and "space_inv st ids" and "cur \<noteq> 0" and "length buf = BACKTRACE_MAX"
  shows "\<exists>stack st'. current_ips unw cur entry (opt_backtrace_limit og) buf st = Return (stack, st') \<and>
    2 \<le> length stack \<and> length stack \<le> BACKTRACE_MAX"
proof -
  from assms(1) have "parse_loop cs default_opts = Return og"
    by (auto simp: parse_args_def run_bind_Return Let_def split: if_splits)
  then have "opt_backtrace_limit og \<le> int BACKTRACE_MAX"
    using parse_loop_checked [of cs default_opts og] by (simp add: default_opts_def BACKTRACE_MAX_def)
  from current_ips_frames [OF assms(3,4,2) this assms(5), of unw entry] show ?thesis by force
qed

end
